(* ===== verification/Prelude.thy ===== *)
theory Prelude
  imports Main "HOL-Library.Word"
begin

text \<open>
  Shared vocabulary of the Gozara development: the byte types, the record of the library
  functions the code calls but does not define, and generic lemmas on finite maps, on
  lists and on option-valued searches that several components use.

  Identifiers of peers, hashes and payloads are byte strings. \<open>usize\<close> counts are
  natural numbers; where the width matters (the additions of the upload handler, the casts, the
  frame length) the model writes the wrap-around out or uses a word.
\<close>

section \<open>Types\<close>

type_synonym u8 = "8 word"
type_synonym u32 = "32 word"
type_synonym u64 = "64 word"
type_synonym bytes = "u8 list"
type_synonym hash = bytes
type_synonym peer_id = bytes
type_synonym blob_id = string

text \<open>
  The functions of other packages that the code calls, and the constants of the module
  \<open>client::admission\<close>, which the repository declares (\<open>mod admission\<close>) but does not contain.
  \<^item> \<open>blake3\<close>: \<open>blake3::hash\<close>; \<open>hash_display\<close>: the \<open>Display\<close> text of a \<open>blake3::Hash\<close>;
  \<^item> \<open>merkle_root\<close>: \<open>MerkleTree::from_leaves(leaves).root()\<close> of \<open>rs_merkle\<close>;
  \<^item> \<open>magic_type_id\<close>: \<open>MagicTypeId::from_str\<close> followed by \<open>to_string\<close>, \<open>None\<close> for a bad id;
  \<^item> \<open>header_to_str\<close>: \<open>HeaderValue::to_str\<close>;
  \<^item> \<open>chunk_size\<close>: \<open>admission::CHUNK_SIZE\<close>;
  \<^item> \<open>instant_max\<close>: the last instant the platform's clock can represent, in nanoseconds.
\<close>

record lib =
  blake3 :: "bytes \<Rightarrow> hash"
  hash_display :: "hash \<Rightarrow> bytes"
  merkle_root :: "hash list \<Rightarrow> hash option"
  magic_type_id :: "string \<Rightarrow> string option"
  header_to_str :: "bytes \<Rightarrow> string option"
  chunk_size :: nat
  instant_max :: nat

text \<open>The documented facts about these functions that theorems name as hypotheses.\<close>

definition wf_hash :: "hash \<Rightarrow> bool" where
  "wf_hash h \<longleftrightarrow> length h = 32"

definition blake3_digests :: "lib \<Rightarrow> bool" where
  "blake3_digests L \<longleftrightarrow> (\<forall>d. wf_hash (blake3 L d))"

text \<open>
  A small instance of the library functions, on which the witnesses of the theorems run: a
  32-byte checksum, chunks of four bytes, every id canonical.
\<close>

definition sample_lib :: lib where
  "sample_lib = \<lparr>blake3 = (\<lambda>d. replicate 32 (sum_list d)), hash_display = (\<lambda>h. take 8 h),
     merkle_root = (\<lambda>hs. case hs of [] \<Rightarrow> None | h # _ \<Rightarrow> Some h), magic_type_id = Some,
     header_to_str = (\<lambda>bs. Some (List.map (\<lambda>b. char_of (unat b)) bs)), chunk_size = 4,
     instant_max = 10 ^ 20\<rparr>"

lemma blake3_digests_sample: "blake3_digests sample_lib"
  by (simp add: blake3_digests_def sample_lib_def wf_hash_def)

section \<open>Hint collections\<close>

named_theorems io_simps "execution of the stream programs"
named_theorems step_defs "the definitions of the handlers of a component"

section \<open>Maps and their iteration orders\<close>

text \<open>
  A \<open>HashMap\<close> is a finite map. Its iteration order is unspecified, so an operation that
  iterates takes the order as an argument: any list that enumerates the keys.
\<close>

definition enumerates :: "'k list \<Rightarrow> ('k \<rightharpoonup> 'v) \<Rightarrow> bool" where
  "enumerates ks m \<longleftrightarrow> distinct ks \<and> set ks = dom m"

lemma enumeratesD:
  assumes "enumerates ks m"
  shows "distinct ks" "set ks = dom m" "finite (dom m)"
  using assms by (auto simp: enumerates_def) (metis List.finite_set)

lemma enumerates_lookup: "enumerates ks m \<Longrightarrow> k \<in> set ks \<Longrightarrow> \<exists>v. m k = Some v"
  by (auto simp: enumerates_def)

text \<open>
  The keys of a map in a given order. A list that covers the map gives an enumeration, so an
  order of all keys that may occur serves every map that a handler walks over.
\<close>

definition keys_in :: "'k list \<Rightarrow> ('k \<rightharpoonup> 'v) \<Rightarrow> 'k list" where
  "keys_in ks m = filter (\<lambda>k. m k \<noteq> None) ks"

definition covers :: "'k list \<Rightarrow> ('k \<rightharpoonup> 'v) \<Rightarrow> bool" where
  "covers ks m \<longleftrightarrow> distinct ks \<and> dom m \<subseteq> set ks"

lemma keys_in_enumerates: "covers ks m \<Longrightarrow> enumerates (keys_in ks m) m"
  by (auto simp: covers_def enumerates_def keys_in_def)

lemma keys_in_self: "enumerates ks m \<Longrightarrow> keys_in ks m = ks"
  by (auto simp: enumerates_def keys_in_def intro!: filter_True)

lemma keys_in_empty_iff: "covers ks m \<Longrightarrow> keys_in ks m = [] \<longleftrightarrow> m = Map.empty"
  by (auto simp: covers_def keys_in_def filter_empty_conv)

text \<open>\<open>HashMap::retain\<close> keeps the entries whose value satisfies the predicate.\<close>

definition retain :: "('v \<Rightarrow> bool) \<Rightarrow> ('k \<rightharpoonup> 'v) \<Rightarrow> ('k \<rightharpoonup> 'v)" where
  "retain p m = (\<lambda>k. case m k of None \<Rightarrow> None | Some v \<Rightarrow> if p v then Some v else None)"

lemma retain_Some [simp]: "retain p m k = Some v \<longleftrightarrow> m k = Some v \<and> p v"
  by (auto simp: retain_def split: option.splits)

lemma retain_empty [simp]: "retain p Map.empty = Map.empty"
  by (simp add: retain_def fun_eq_iff)

lemma retain_eq_empty: "retain p m = Map.empty \<longleftrightarrow> (\<forall>k v. m k = Some v \<longrightarrow> \<not> p v)"
  by (auto simp: retain_def fun_eq_iff split: option.splits)

lemma dom_retain_subset: "dom (retain p m) \<subseteq> dom m"
  by auto

text \<open>The map a vector of pairs collects into: a later pair overrides an earlier one.\<close>

definition collect_map :: "('k \<times> 'v) list \<Rightarrow> ('k \<rightharpoonup> 'v)" where
  "collect_map kvs = map_of (rev kvs)"

lemma dom_collect_map [simp]: "dom (collect_map kvs) = fst ` set kvs"
  by (simp add: collect_map_def dom_map_of_conv_image_fst)

lemma finite_dom_collect_map [simp]: "finite (dom (collect_map kvs))"
  by simp

lemma collect_map_SomeD: "collect_map kvs k = Some v \<Longrightarrow> (k, v) \<in> set kvs"
  unfolding collect_map_def by (drule map_of_SomeD) simp

section \<open>Sums over finite maps\<close>

definition map_sum :: "('v \<Rightarrow> nat) \<Rightarrow> ('k \<rightharpoonup> 'v) \<Rightarrow> nat" where
  "map_sum f m = (\<Sum>k\<in>dom m. f (the (m k)))"

lemma map_sum_empty [simp]: "map_sum f Map.empty = 0"
  by (simp add: map_sum_def)

lemma map_sum_fresh:
  assumes "finite (dom m)" and "m k = None"
  shows "map_sum f (m(k \<mapsto> v)) = f v + map_sum f m"
proof -
  have "k \<notin> dom m" using assms(2) by auto
  moreover have "(\<Sum>x\<in>dom m. f (the ((m(k \<mapsto> v)) x))) = (\<Sum>x\<in>dom m. f (the (m x)))"
    using \<open>k \<notin> dom m\<close> by (intro sum.cong) auto
  ultimately show ?thesis using assms(1) by (simp add: map_sum_def)
qed

lemma map_sum_remove:
  assumes "finite (dom m)" and "m k = Some v"
  shows "map_sum f m = f v + map_sum f (m(k := None))"
proof -
  have "m = (m(k := None))(k \<mapsto> v)" using assms(2) by auto
  then have "map_sum f m = map_sum f ((m(k := None))(k \<mapsto> v))" by simp
  also have "\<dots> = f v + map_sum f (m(k := None))"
    by (rule map_sum_fresh) (use assms(1) in auto)
  finally show ?thesis .
qed

lemma map_sum_update:
  assumes "finite (dom m)" and "m k = Some v"
  shows "map_sum f (m(k \<mapsto> w)) + f v = map_sum f m + f w"
proof -
  have "m(k \<mapsto> w) = (m(k := None))(k \<mapsto> w)" by auto
  then have "map_sum f (m(k \<mapsto> w)) = f w + map_sum f (m(k := None))"
    using map_sum_fresh[of "m(k := None)" k f w] assms(1) by simp
  with map_sum_remove[OF assms, of f] show ?thesis by simp
qed

section \<open>Lists\<close>

lemma sum_list_filter_le: "sum_list (map f (filter p xs)) \<le> sum_list (map (f :: 'a \<Rightarrow> nat) xs)"
  by (induction xs) auto

lemma distinct_takeD: "distinct xs \<Longrightarrow> distinct (take n xs)"
  by simp

lemma take_append_drop_split: "bs = take n bs @ drop n bs"
  by simp

end
