(* ===== verification/Runtime.thy ===== *)
theory Runtime
  imports Prelude
begin

text \<open>
  The clock and the two synchronisation objects the program keeps in its state:
  \<open>Instant\<close>s and \<open>Duration\<close>s, counting semaphores and bounded channels. Each is
  represented by what the code observes of it (nanoseconds, available permits, queued
  messages). The contracts the components rely on are the locales \<open>permit_pool\<close> and
  \<open>message_queue\<close>, interpreted on these definitions at the end of their sections.
\<close>

section \<open>Instants and durations\<close>

text \<open>
  \<open>datatype\<close> keeps instants apart from durations, which are numbers of nanoseconds. The code
  compares instants with \<open><\<close>, so they are a linear order.
\<close>

datatype instant = Instant (nanos: nat)

instantiation instant :: linorder
begin

definition less_eq_instant :: "instant \<Rightarrow> instant \<Rightarrow> bool" where
  "less_eq_instant a b \<longleftrightarrow> nanos a \<le> nanos b"

definition less_instant :: "instant \<Rightarrow> instant \<Rightarrow> bool" where
  "less_instant a b \<longleftrightarrow> nanos a < nanos b"

instance
  by standard (auto simp: less_eq_instant_def less_instant_def intro: instant.expand)

end

type_synonym duration = nat

definition from_secs :: "nat \<Rightarrow> duration" where
  "from_secs n = n * 1000000000"

definition as_secs :: "duration \<Rightarrow> nat" where
  "as_secs d = d div 1000000000"

text \<open>\<open>duration_since\<close> saturates at zero, as subtraction on \<open>nat\<close> does.\<close>

definition duration_since :: "instant \<Rightarrow> instant \<Rightarrow> duration" where
  "duration_since later earlier = nanos later - nanos earlier"

definition checked_add :: "lib \<Rightarrow> instant \<Rightarrow> duration \<Rightarrow> instant option" where
  "checked_add L i d = (if nanos i + d \<le> instant_max L then Some (Instant (nanos i + d)) else None)"

lemma as_secs_gt_iff: "as_secs d > n \<longleftrightarrow> d \<ge> from_secs (n + 1)"
  by (auto simp: as_secs_def from_secs_def Suc_le_eq[symmetric] less_eq_div_iff_mult_less_eq)

lemma as_secs_less_iff: "as_secs d < n \<longleftrightarrow> d < from_secs n"
  by (auto simp: as_secs_def from_secs_def div_less_iff_less_mult)

lemma as_secs_from_secs [simp]: "as_secs (from_secs n) = n"
  by (simp add: as_secs_def from_secs_def)

section \<open>Semaphores\<close>

record semaphore =
  permits :: nat
  sem_closed :: bool

definition semaphore_new :: "nat \<Rightarrow> semaphore" where
  "semaphore_new n = \<lparr>permits = n, sem_closed = False\<rparr>"

definition available_permits :: "semaphore \<Rightarrow> nat" where
  "available_permits s = permits s"

text \<open>\<open>try_acquire_many_owned\<close>: all permits at once or none.\<close>

definition try_acquire_many :: "nat \<Rightarrow> semaphore \<Rightarrow> semaphore option" where
  "try_acquire_many n s =
     (if sem_closed s \<or> permits s < n then None else Some (s\<lparr>permits := permits s - n\<rparr>))"

text \<open>Dropping an owned permit returns what it holds.\<close>

definition release_many :: "nat \<Rightarrow> semaphore \<Rightarrow> semaphore" where
  "release_many n s = s\<lparr>permits := permits s + n\<rparr>"

text \<open>
  The contract: acquiring moves permits from the pool to the holder, releasing moves them
  back, nothing else changes the pool. The client's lemma is conservation: a pool whose
  permits are shared out keeps its total.
\<close>

locale permit_pool =
  fixes avail :: "'s \<Rightarrow> nat"
    and acquire :: "nat \<Rightarrow> 's \<Rightarrow> 's option"
    and release :: "nat \<Rightarrow> 's \<Rightarrow> 's"
  assumes acquire_Some: "acquire n s = Some s' \<Longrightarrow> avail s = avail s' + n"
    and avail_release: "avail (release n s) = avail s + n"
    and release_acquire: "acquire n s = Some s' \<Longrightarrow> release n s' = s"
begin

lemma acquire_bound: "acquire n s = Some s' \<Longrightarrow> n \<le> avail s"
  by (simp add: acquire_Some)

lemma conserve_acquire:
  assumes "acquire n s = Some s'" and "avail s + held = all_permits"
  shows "avail s' + (held + n) = all_permits"
  using assms acquire_Some by fastforce

lemma conserve_release:
  assumes "avail s + (held + n) = all_permits"
  shows "avail (release n s) + held = all_permits"
  using assms by (simp add: avail_release)

end

interpretation sem: permit_pool available_permits try_acquire_many release_many
  by unfold_locales
    (auto simp: available_permits_def try_acquire_many_def release_many_def split: if_splits)

lemma try_acquire_many_None:
  "try_acquire_many n s = None \<longleftrightarrow> sem_closed s \<or> available_permits s < n"
  by (auto simp: try_acquire_many_def available_permits_def)

lemma available_semaphore_new [simp]: "available_permits (semaphore_new n) = n"
  by (simp add: available_permits_def semaphore_new_def)

lemma sem_closed_release [simp]: "sem_closed (release_many n s) = sem_closed s"
  by (simp add: release_many_def)

lemma sem_closed_acquire: "try_acquire_many n s = Some s' \<Longrightarrow> sem_closed s' = sem_closed s"
  by (auto simp: try_acquire_many_def split: if_splits)

section \<open>Channels\<close>

text \<open>
  An \<open>mpsc\<close> channel: the queued messages, the capacity (\<open>None\<close> for an unbounded
  channel) and whether the receiver still exists. \<open>send\<close> waits while the channel is full.
\<close>

record 'm channel =
  queued :: "'m list"
  capacity :: "nat option"
  rx_alive :: bool

datatype 'c sent = Sent 'c | Closed | WouldWait

definition channel_new :: "nat option \<Rightarrow> 'm channel" where
  "channel_new n = \<lparr>queued = [], capacity = n, rx_alive = True\<rparr>"

definition has_room :: "'m channel \<Rightarrow> bool" where
  "has_room c \<longleftrightarrow> (case capacity c of None \<Rightarrow> True | Some n \<Rightarrow> length (queued c) < n)"

definition chan_send :: "'m \<Rightarrow> 'm channel \<Rightarrow> 'm channel sent" where
  "chan_send m c = (if \<not> rx_alive c then Closed
     else if has_room c then Sent (c\<lparr>queued := queued c @ [m]\<rparr>) else WouldWait)"

definition chan_recv :: "'m channel \<Rightarrow> ('m \<times> 'm channel) option" where
  "chan_recv c = (case queued c of [] \<Rightarrow> None | m # ms \<Rightarrow> Some (m, c\<lparr>queued := ms\<rparr>))"

text \<open>\<open>try_send\<close> with its result ignored: a full or closed channel drops the message.\<close>

definition chan_try_send :: "'m \<Rightarrow> 'm channel \<Rightarrow> 'm channel" where
  "chan_try_send m c = (case chan_send m c of Sent c' \<Rightarrow> c' | _ \<Rightarrow> c)"

definition chan_bounded :: "'m channel \<Rightarrow> bool" where
  "chan_bounded c \<longleftrightarrow> (case capacity c of None \<Rightarrow> True | Some n \<Rightarrow> length (queued c) \<le> n)"

text \<open>The contract of a queue of messages, by its contents.\<close>

locale message_queue =
  fixes contents :: "'q \<Rightarrow> 'm list"
    and put :: "'m \<Rightarrow> 'q \<Rightarrow> 'q sent"
    and get :: "'q \<Rightarrow> ('m \<times> 'q) option"
    and bounded :: "'q \<Rightarrow> bool"
  assumes put_contents: "put m q = Sent q' \<Longrightarrow> contents q' = contents q @ [m]"
    and get_contents: "get q = Some (m, q') \<Longrightarrow> contents q = m # contents q'"
    and get_None: "get q = None \<longleftrightarrow> contents q = []"
    and put_bounded: "put m q = Sent q' \<Longrightarrow> bounded q \<Longrightarrow> bounded q'"
    and get_bounded: "get q = Some (m, q') \<Longrightarrow> bounded q \<Longrightarrow> bounded q'"
begin

text \<open>First in, first out: a message put into an empty queue is the next one out.\<close>

lemma put_get_empty:
  assumes "contents q = []" and "put m q = Sent q'"
  shows "\<exists>q''. get q' = Some (m, q'') \<and> contents q'' = []"
proof -
  have "contents q' = [m]" using assms put_contents by fastforce
  then obtain m' q'' where "get q' = Some (m', q'')"
    using get_None[of q'] by (cases "get q'") auto
  with get_contents[OF this] \<open>contents q' = [m]\<close> show ?thesis by auto
qed

lemma put_get_nonempty:
  assumes "get q = Some (x, r)" and "put m q = Sent q'"
  shows "\<exists>r'. get q' = Some (x, r') \<and> contents r' = contents r @ [m]"
proof -
  have "contents q' = x # contents r @ [m]"
    using assms get_contents put_contents by fastforce
  then obtain y r' where "get q' = Some (y, r')"
    using get_None[of q'] by (cases "get q'") auto
  with get_contents[OF this] \<open>contents q' = x # contents r @ [m]\<close> show ?thesis by auto
qed

end

interpretation chan: message_queue queued chan_send chan_recv chan_bounded
  by unfold_locales
    (auto simp: chan_send_def chan_recv_def chan_bounded_def has_room_def
       split: if_splits list.splits option.splits)

lemma chan_send_room: "rx_alive c \<Longrightarrow> has_room c \<Longrightarrow> chan_send m c = Sent (c\<lparr>queued := queued c @ [m]\<rparr>)"
  by (simp add: chan_send_def)

lemma chan_send_Closed [simp]: "chan_send m c = Closed \<longleftrightarrow> \<not> rx_alive c"
  by (simp add: chan_send_def)

section \<open>Transition systems\<close>

text \<open>
  Several tasks act on shared state, so the whole program is a step relation. The contract of
  an invariant: it holds at the start and every step keeps it. The client's lemmas: it holds in
  every reachable state, and a measure that no step lowers only grows along a run.
\<close>

inductive reachable :: "'s \<Rightarrow> ('s \<Rightarrow> 's \<Rightarrow> bool) \<Rightarrow> 's \<Rightarrow> bool" for init step where
  start: "reachable init step init"
| more: "reachable init step s \<Longrightarrow> step s t \<Longrightarrow> reachable init step t"

locale invariant =
  fixes init :: 's
    and step :: "'s \<Rightarrow> 's \<Rightarrow> bool"
    and inv :: "'s \<Rightarrow> bool"
  assumes inv_init: "inv init"
    and inv_step: "inv s \<Longrightarrow> step s t \<Longrightarrow> inv t"
begin

lemma inv_reachable: "reachable init step s \<Longrightarrow> inv s"
  by (induction rule: reachable.induct) (auto intro: inv_init inv_step)

lemma inv_run: "step\<^sup>*\<^sup>* s t \<Longrightarrow> inv s \<Longrightarrow> inv t"
  by (induction rule: rtranclp_induct) (auto intro: inv_step)

end

lemma reachable_run: "reachable init step s \<Longrightarrow> step\<^sup>*\<^sup>* s t \<Longrightarrow> reachable init step t"
  by (rotate_tac, induction rule: rtranclp_induct) (auto intro: reachable.more)

lemma reachable_rtranclp: "reachable init step s \<longleftrightarrow> step\<^sup>*\<^sup>* init s"
proof
  assume "reachable init step s"
  then show "step\<^sup>*\<^sup>* init s"
    by (induction rule: reachable.induct) (auto intro: rtranclp.rtrancl_into_rtrancl)
next
  assume "step\<^sup>*\<^sup>* init s"
  then show "reachable init step s" by (rule reachable_run[OF reachable.start])
qed

end
