(* ===== verification/BlobTransfer.thy ===== *)
theory BlobTransfer
  imports Runtime "HOL-Library.Sublist"
begin

unbundle bit_operations_syntax

text \<open>
  The blob transfer protocol, \<open>crates/peyk/src/blob_transfer.rs\<close>: length-prefixed frames on
  a byte stream, the client operations \<open>push\<close> and \<open>pull\<close>, the server handlers
  \<open>handle_incoming_push\<close> and \<open>handle_incoming_pull\<close> and the accept loops.

  A stream is the state \<open>io\<close>: the bytes the other side sends before the stream ends, the bytes
  written so far, how many more bytes the connection takes before a write fails (\<open>None\<close>: all)
  and whether closing it succeeds. Network faults are therefore values of the state: a reset or a
  stall of the sender is a short \<open>rx\<close>, a reset seen by the writer a finite \<open>wr_left\<close>.
\<close>

section \<open>Streams and their programs\<close>

record io =
  rx :: bytes
  tx :: bytes
  wr_left :: "nat option"
  close_ok :: bool

datatype xfer_error =
    LenOverflow
  | ReadFailed
  | WriteFailed
  | CloseFailed
  | FrameTooLong nat nat
  | HashConversion
  | OpenStream
  | Rejected bytes
  | PullMismatch hash hash
  | PushMismatch hash hash

type_synonym 'a io_act = "io \<Rightarrow> (xfer_error + 'a) \<times> io"

definition io_return :: "'a \<Rightarrow> 'a io_act" where
  "io_return x s = (Inr x, s)"

definition io_fail :: "xfer_error \<Rightarrow> 'a io_act" where
  "io_fail e s = (Inl e, s)"

text \<open>Sequencing with \<open>?\<close>: the first error ends the program.\<close>

definition and_then :: "'a io_act \<Rightarrow> ('a \<Rightarrow> 'b io_act) \<Rightarrow> 'b io_act" where
  "and_then m f s = (case m s of (Inl e, s') \<Rightarrow> (Inl e, s') | (Inr x, s') \<Rightarrow> f x s')"

definition read_exact :: "nat \<Rightarrow> bytes io_act" where
  "read_exact n s =
     (if n \<le> length (rx s) then (Inr (take n (rx s)), s\<lparr>rx := drop n (rx s)\<rparr>)
      else (Inl ReadFailed, s\<lparr>rx := []\<rparr>))"

definition write_all :: "bytes \<Rightarrow> unit io_act" where
  "write_all bs s =
     (case wr_left s of
        None \<Rightarrow> (Inr (), s\<lparr>tx := tx s @ bs\<rparr>)
      | Some n \<Rightarrow>
          if length bs \<le> n then (Inr (), s\<lparr>tx := tx s @ bs, wr_left := Some (n - length bs)\<rparr>)
          else (Inl WriteFailed, s\<lparr>tx := tx s @ take n bs, wr_left := Some 0\<rparr>))"

definition close_stream :: "unit io_act" where
  "close_stream s = (if close_ok s then Inr () else Inl CloseFailed, s)"

section \<open>Frames\<close>

definition to_be_bytes :: "u32 \<Rightarrow> bytes" where
  "to_be_bytes w =
     [ucast (drop_bit 24 w), ucast (drop_bit 16 w), ucast (drop_bit 8 w), ucast w]"

definition from_be_bytes :: "bytes \<Rightarrow> u32" where
  "from_be_bytes bs =
     push_bit 24 (ucast (bs ! 0)) OR push_bit 16 (ucast (bs ! 1)) OR
     push_bit 8 (ucast (bs ! 2)) OR ucast (bs ! 3)"

text \<open>\<open>let len: u32 = bytes.len().try_into()?\<close>\<close>

definition try_into_u32 :: "nat \<Rightarrow> xfer_error + u32" where
  "try_into_u32 n = (if n < 2 ^ 32 then Inr (of_nat n) else Inl LenOverflow)"

definition write_frame :: "bytes \<Rightarrow> unit io_act" where
  "write_frame bs =
     (case try_into_u32 (length bs) of
        Inl e \<Rightarrow> io_fail e
      | Inr len \<Rightarrow> and_then (write_all (to_be_bytes len)) (\<lambda>_. write_all bs))"

definition read_frame :: "nat \<Rightarrow> bytes io_act" where
  "read_frame max_len =
     and_then (read_exact 4) (\<lambda>len_buf.
       let len = unat (from_be_bytes len_buf) in
       if len > max_len then io_fail (FrameTooLong len max_len)
       else read_exact len)"

text \<open>The bytes of a frame on the wire.\<close>

definition frame_bytes :: "bytes \<Rightarrow> bytes" where
  "frame_bytes bs = to_be_bytes (of_nat (length bs)) @ bs"

lemma length_to_be_bytes [simp]: "length (to_be_bytes w) = 4"
  by (simp add: to_be_bytes_def)

lemma from_to_be_bytes [simp]: "from_be_bytes (to_be_bytes w) = w"
proof (rule bit_eqI)
  fix n assume "possible_bit TYPE(u32) n"
  then have "n < 32" by simp
  then show "bit (from_be_bytes (to_be_bytes w)) n \<longleftrightarrow> bit w n"
    by (cases "n < 8"; cases "n < 16"; cases "n < 24")
      (auto simp: from_be_bytes_def to_be_bytes_def bit_or_iff bit_push_bit_iff bit_ucast_iff
        bit_drop_bit_eq)
qed

lemma to_from_be_bytes:
  assumes "length bs = 4"
  shows "to_be_bytes (from_be_bytes bs) = bs"
proof -
  obtain a b c d where bs: "bs = [a, b, c, d]"
    using assms by (auto simp: length_Suc_conv numeral_eq_Suc)
  have "ucast (drop_bit 24 (from_be_bytes bs)) = a" "ucast (drop_bit 16 (from_be_bytes bs)) = b"
    "ucast (drop_bit 8 (from_be_bytes bs)) = c" "ucast (from_be_bytes bs) = d"
    by (rule bit_eqI;
        auto simp: bs from_be_bytes_def bit_or_iff bit_push_bit_iff bit_ucast_iff bit_drop_bit_eq
          dest: bit_imp_le_length)+
  then show ?thesis by (simp add: to_be_bytes_def bs)
qed

text \<open>Execution of the stream programs on results known so far.\<close>

lemma and_then_Inr: "and_then m f s = (Inr y, t) \<longleftrightarrow> (\<exists>x u. m s = (Inr x, u) \<and> f x u = (Inr y, t))"
  by (auto simp: and_then_def split: prod.splits sum.splits)

lemma and_then_Inl:
  "and_then m f s = (Inl e, t) \<longleftrightarrow>
     m s = (Inl e, t) \<or> (\<exists>x u. m s = (Inr x, u) \<and> f x u = (Inl e, t))"
  by (auto simp: and_then_def split: prod.splits sum.splits)

lemma and_then_run [io_simps]: "m s = (Inr x, u) \<Longrightarrow> and_then m f s = f x u"
  by (simp add: and_then_def)

lemma and_then_stop: "m s = (Inl e, u) \<Longrightarrow> and_then m f s = (Inl e, u)"
  by (simp add: and_then_def)

lemma read_exact_Inr:
  "read_exact n s = (Inr bs, t) \<longleftrightarrow> length bs = n \<and> rx s = bs @ rx t \<and> t = s\<lparr>rx := rx t\<rparr>"
proof
  assume "read_exact n s = (Inr bs, t)"
  then show "length bs = n \<and> rx s = bs @ rx t \<and> t = s\<lparr>rx := rx t\<rparr>"
    by (auto simp: read_exact_def split: if_splits)
next
  assume r: "length bs = n \<and> rx s = bs @ rx t \<and> t = s\<lparr>rx := rx t\<rparr>"
  then have "read_exact n s = (Inr bs, s\<lparr>rx := rx t\<rparr>)"
    by (auto simp: read_exact_def)
  with r show "read_exact n s = (Inr bs, t)" by simp
qed

lemma read_exact_Inl: "read_exact n s = (Inl e, t) \<longleftrightarrow>
    length (rx s) < n \<and> e = ReadFailed \<and> t = s\<lparr>rx := []\<rparr>"
  by (auto simp: read_exact_def)

lemma read_exact_tx: "tx (snd (read_exact n s)) = tx s"
  by (simp add: read_exact_def)

lemma write_all_Inr: "write_all bs s = (Inr u, t) \<Longrightarrow> tx t = tx s @ bs \<and> rx t = rx s"
  by (auto simp: write_all_def split: option.splits if_splits)

lemma write_all_Inl: "write_all bs s = (Inl e, t) \<Longrightarrow>
    e = WriteFailed \<and> rx t = rx s \<and> strict_prefix (tx t) (tx s @ bs) \<and> prefix (tx s) (tx t)"
  by (auto simp: write_all_def strict_prefix_def take_is_prefix append_eq_conv_conj
      split: option.splits if_splits)

lemma write_all_ok [io_simps]: "wr_left s = None \<Longrightarrow> write_all bs s = (Inr (), s\<lparr>tx := tx s @ bs\<rparr>)"
  by (simp add: write_all_def)

lemma write_frame_Inr:
  "write_frame bs s = (Inr u, t) \<Longrightarrow>
     tx t = tx s @ frame_bytes bs \<and> rx t = rx s \<and> length bs < 2 ^ 32"
  by (auto simp: write_frame_def try_into_u32_def io_fail_def and_then_Inr frame_bytes_def
      dest!: write_all_Inr split: sum.splits if_splits)

lemma write_frame_ok [io_simps]:
  "wr_left s = None \<Longrightarrow> length bs < 2 ^ 32 \<Longrightarrow>
     write_frame bs s = (Inr (), s\<lparr>tx := tx s @ frame_bytes bs\<rparr>)"
  by (simp add: write_frame_def try_into_u32_def and_then_def write_all_def frame_bytes_def)

lemma write_frame_rx: "rx (snd (write_frame bs s)) = rx s"
  by (auto simp: write_frame_def try_into_u32_def io_fail_def and_then_def write_all_def
      split: option.splits)

text \<open>
  The master lemma of the reader: it succeeds exactly on the wire form of a frame within
  the limit, returns its payload and leaves the rest of the stream.
\<close>

lemma read_frame_Inr:
  "read_frame m s = (Inr d, t) \<longleftrightarrow>
     rx s = frame_bytes d @ rx t \<and> length d \<le> m \<and> length d < 2 ^ 32 \<and> t = s\<lparr>rx := rx t\<rparr>"
    (is "?run \<longleftrightarrow> ?wire")
proof
  assume ?run
  then obtain lb u where lb: "length lb = 4" "rx s = lb @ rx u" "u = s\<lparr>rx := rx u\<rparr>"
    and d: "unat (from_be_bytes lb) \<le> m" "length d = unat (from_be_bytes lb)"
      "rx u = d @ rx t" "t = u\<lparr>rx := rx t\<rparr>"
    by (auto simp: read_frame_def and_then_Inr Let_def io_fail_def read_exact_Inr split: if_splits)
  have "to_be_bytes (of_nat (length d)) = lb"
    using d(2) to_from_be_bytes[OF lb(1)] by simp
  moreover have "length d < 2 ^ 32" using d(2) unsigned_less[of "from_be_bytes lb", where ?'a = nat] by simp
  moreover have "t = s\<lparr>rx := rx u\<rparr>\<lparr>rx := rx t\<rparr>"
    by (subst lb(3)[symmetric]) (rule d(4))
  ultimately show ?wire using lb d by (simp add: frame_bytes_def)
next
  assume w: ?wire
  let ?u = "s\<lparr>rx := d @ rx t\<rparr>"
  have "read_exact 4 s = (Inr (to_be_bytes (of_nat (length d))), ?u)"
    using w by (simp add: read_exact_Inr frame_bytes_def)
  moreover have "unat (of_nat (length d) :: u32) = length d"
    using w by (simp add: unat_of_nat take_bit_nat_eq_self)
  moreover have "read_exact (length d) ?u = (Inr d, t)"
    using w by (simp add: read_exact_Inr)
  ultimately show ?run using w by (simp add: read_frame_def and_then_run Let_def)
qed

lemma read_frame_tx: "tx (snd (read_frame m s)) = tx s"
  by (auto simp: read_frame_def and_then_def read_exact_def io_fail_def Let_def)

lemma read_frame_wire [io_simps]:
  "rx s = frame_bytes d @ r \<Longrightarrow> length d \<le> m \<Longrightarrow> length d < 2 ^ 32 \<Longrightarrow>
     read_frame m s = (Inr d, s\<lparr>rx := r\<rparr>)"
  by (simp add: read_frame_Inr)

lemma read_exact_wire [io_simps]:
  "rx s = bs @ r \<Longrightarrow> n = length bs \<Longrightarrow> read_exact n s = (Inr bs, s\<lparr>rx := r\<rparr>)"
  by (simp add: read_exact_Inr)

section \<open>The wire formats as codecs\<close>

text \<open>
  The contract of a self-delimiting wire format: what is put can be got back in front of any
  continuation, and what is got was put. The client's lemmas: a format is prefix-free, a
  reader needs nothing beyond the item, and an item read from a truncated copy of a
  stream is the item the writer put there.
\<close>

locale stream_codec =
  fixes put :: "'a \<Rightarrow> bytes"
    and get :: "bytes \<Rightarrow> ('a \<times> bytes) option"
    and fits :: "'a \<Rightarrow> bool"
  assumes get_put: "fits x \<Longrightarrow> get (put x @ rest) = Some (x, rest)"
    and get_sound: "get bs = Some (x, rest) \<Longrightarrow> bs = put x @ rest \<and> fits x"
begin

lemma get_iff: "get bs = Some (x, rest) \<longleftrightarrow> bs = put x @ rest \<and> fits x"
proof
  assume "get bs = Some (x, rest)"
  then show "bs = put x @ rest \<and> fits x" by (rule get_sound)
next
  assume "bs = put x @ rest \<and> fits x"
  then show "get bs = Some (x, rest)" using get_put by blast
qed

lemma prefix_free:
  assumes "fits x" and "fits y" and "put x @ r = put y @ s"
  shows "x = y \<and> r = s"
proof -
  have "get (put y @ s) = Some (x, r)"
    by (subst assms(3)[symmetric]) (rule get_put[OF assms(1)])
  moreover have "get (put y @ s) = Some (y, s)" using assms(2) by (rule get_put)
  ultimately show ?thesis by simp
qed

lemma get_more:
  assumes "get bs = Some (x, r)"
  shows "get (bs @ z) = Some (x, r @ z)"
proof -
  have "bs @ z = put x @ (r @ z)" and "fits x" using get_sound[OF assms] by auto
  then show ?thesis using get_put[of x "r @ z"] by (simp only:)
qed

lemma get_from_truncated:
  assumes "get bs = Some (x, r)" and "prefix bs (put y @ s)" and "fits y"
  shows "x = y \<and> prefix r s"
proof -
  obtain z where z: "put y @ s = bs @ z" using assms(2) by (auto simp: prefix_def)
  have "get (put y @ s) = Some (x, r @ z)" using get_more[OF assms(1)] by (simp only: z)
  moreover have "get (put y @ s) = Some (y, s)" using assms(3) by (rule get_put)
  ultimately show ?thesis by (auto simp: prefix_def)
qed

end

text \<open>A reading program as a partial function on the bytes to come.\<close>

definition run_read :: "'a io_act \<Rightarrow> bytes \<Rightarrow> ('a \<times> bytes) option" where
  "run_read m bs =
     (case m \<lparr>rx = bs, tx = [], wr_left = None, close_ok = True\<rparr> of
        (Inl _, _) \<Rightarrow> None
      | (Inr x, s) \<Rightarrow> Some (x, rx s))"

definition frame_fits :: "nat \<Rightarrow> bytes \<Rightarrow> bool" where
  "frame_fits m d \<longleftrightarrow> length d \<le> m \<and> length d < 2 ^ 32"

lemma run_read_frame:
  "run_read (read_frame m) bs = Some (d, r) \<longleftrightarrow> bs = frame_bytes d @ r \<and> frame_fits m d"
proof -
  let ?s = "\<lparr>rx = bs, tx = [], wr_left = None, close_ok = True\<rparr>"
  have "run_read (read_frame m) bs = Some (d, r) \<longleftrightarrow> (\<exists>t. read_frame m ?s = (Inr d, t) \<and> rx t = r)"
    by (auto simp: run_read_def split: prod.splits sum.splits)
  also have "\<dots> \<longleftrightarrow> bs = frame_bytes d @ r \<and> frame_fits m d"
    by (auto simp: read_frame_Inr frame_fits_def intro: exI[of _ "?s\<lparr>rx := r\<rparr>"])
  finally show ?thesis .
qed

interpretation frame: stream_codec frame_bytes "run_read (read_frame m)" "frame_fits m" for m
  by unfold_locales (simp_all add: run_read_frame)

definition read_u32 :: "u32 io_act" where
  "read_u32 = and_then (read_exact 4) (\<lambda>b. io_return (from_be_bytes b))"

interpretation be32: stream_codec to_be_bytes "run_read read_u32" "\<lambda>_. True"
  by unfold_locales
    (auto simp: run_read_def read_u32_def and_then_def read_exact_def io_return_def to_from_be_bytes
       split: if_splits)

lemma read_frame_run_read:
  "read_frame m s = (Inr d, t) \<longleftrightarrow> run_read (read_frame m) (rx s) = Some (d, rx t) \<and> t = s\<lparr>rx := rx t\<rparr>"
  by (auto simp: read_frame_Inr run_read_frame frame_fits_def)

section \<open>The client operations\<close>

definition HASH_MAX_LEN :: nat where
  "HASH_MAX_LEN = 32"

datatype direction = Push | Pull

record transfer_event =
  ev_peer :: peer_id
  ev_hash :: hash
  ev_len :: nat
  ev_direction :: direction
  ev_ok :: bool

text \<open>
  The part of \<open>push\<close> between opening and closing the stream. Its error is an early return
  of the function; its value is the variable \<open>result\<close>.
\<close>

definition push_exchange :: "hash \<Rightarrow> bytes \<Rightarrow> (xfer_error + unit) io_act" where
  "push_exchange hash data =
     and_then (write_frame hash) (\<lambda>_.
     and_then (write_frame data) (\<lambda>_.
     and_then (read_exact 1) (\<lambda>ack_tag.
       if ack_tag ! 0 = 1 then io_return (Inr ())
       else and_then (read_frame 4096) (\<lambda>reason. io_return (Inl (Rejected reason))))))"

definition push :: "bool \<Rightarrow> peer_id \<Rightarrow> hash \<Rightarrow> bytes \<Rightarrow> io
    \<Rightarrow> (xfer_error + unit) \<times> io \<times> transfer_event list" where
  "push opened peer hash data s =
     (if \<not> opened then (Inl OpenStream, s, [])
      else case push_exchange hash data s of
        (Inl e, s') \<Rightarrow> (Inl e, s', [])
      | (Inr result, s') \<Rightarrow>
          (result, snd (close_stream s'),
           [\<lparr>ev_peer = peer, ev_hash = hash, ev_len = length data, ev_direction = Push,
             ev_ok = (case result of Inl _ \<Rightarrow> False | Inr _ \<Rightarrow> True)\<rparr>]))"

definition pull_exchange :: "lib \<Rightarrow> hash \<Rightarrow> nat \<Rightarrow> (xfer_error + bytes option) io_act" where
  "pull_exchange L hash max_payload_len =
     and_then (write_frame hash) (\<lambda>_.
     and_then (read_exact 1) (\<lambda>found_tag.
       if found_tag ! 0 = 0 then io_return (Inr None)
       else and_then (read_frame max_payload_len) (\<lambda>data.
         let received_hash = blake3 L data in
         if received_hash = hash then io_return (Inr (Some data))
         else io_return (Inl (PullMismatch hash received_hash)))))"

definition pull :: "lib \<Rightarrow> bool \<Rightarrow> peer_id \<Rightarrow> hash \<Rightarrow> nat \<Rightarrow> io
    \<Rightarrow> (xfer_error + bytes option) \<times> io \<times> transfer_event list" where
  "pull L opened peer hash max_payload_len s =
     (if \<not> opened then (Inl OpenStream, s, [])
      else case pull_exchange L hash max_payload_len s of
        (Inl e, s') \<Rightarrow> (Inl e, s', [])
      | (Inr result, s') \<Rightarrow>
          (result, snd (close_stream s'),
           [\<lparr>ev_peer = peer, ev_hash = hash,
             ev_len = (case result of Inr (Some data) \<Rightarrow> length data | _ \<Rightarrow> 0),
             ev_direction = Pull,
             ev_ok = (case result of Inr (Some _) \<Rightarrow> True | _ \<Rightarrow> False)\<rparr>]))"

section \<open>The server handlers\<close>

record incoming_push =
  push_peer :: peer_id
  push_hash :: hash
  push_data :: bytes

record incoming_pull =
  pull_peer :: peer_id
  pull_hash :: hash

text \<open>The bytes of \<open>format!("integrity check failed (got {actual_hash})")\<close>.\<close>

definition str_bytes :: "string \<Rightarrow> bytes" where
  "str_bytes s = List.map of_char s"

definition integrity_message :: "lib \<Rightarrow> hash \<Rightarrow> bytes" where
  "integrity_message L actual =
     str_bytes ''integrity check failed (got '' @ hash_display L actual @ str_bytes '')''"

text \<open>\<open>Hash::from_slice(&read_frame(&mut stream, HASH_MAX_LEN).await?)\<close>\<close>

definition read_hash :: "hash io_act" where
  "read_hash =
     and_then (read_frame HASH_MAX_LEN) (\<lambda>b.
       if length b = 32 then io_return b else io_fail HashConversion)"

text \<open>The reading phase of the push handler: the expected hash, then the payload.\<close>

definition read_push :: "nat \<Rightarrow> (hash \<times> bytes) io_act" where
  "read_push max_payload_len =
     and_then read_hash (\<lambda>expected_hash.
     and_then (read_frame max_payload_len) (\<lambda>data. io_return (expected_hash, data)))"

definition handle_incoming_push :: "lib \<Rightarrow> peer_id \<Rightarrow> nat \<Rightarrow> io
    \<Rightarrow> (xfer_error + unit) \<times> io \<times> incoming_push list" where
  "handle_incoming_push L peer max_payload_len s =
     (case read_push max_payload_len s of
        (Inl e, s1) \<Rightarrow> (Inl e, s1, [])
      | (Inr (expected_hash, data), s1) \<Rightarrow>
          let actual_hash = blake3 L data in
          if actual_hash \<noteq> expected_hash then
            (case and_then (write_all [0]) (\<lambda>_. write_frame (integrity_message L actual_hash)) s1 of
               (Inl e, s2) \<Rightarrow> (Inl e, s2, [])
             | (Inr _, s2) \<Rightarrow>
                 (Inl (PushMismatch expected_hash actual_hash), snd (close_stream s2), []))
          else
            (case write_all [1] s1 of
               (Inl e, s2) \<Rightarrow> (Inl e, s2, [])
             | (Inr _, s2) \<Rightarrow>
                 (Inr (), snd (close_stream s2),
                  [\<lparr>push_peer = peer, push_hash = expected_hash, push_data = data\<rparr>])))"

text \<open>
  The pull handler asks the owner of the store and waits for the reply; \<open>reply\<close> is \<open>None\<close>
  when the \<open>IncomingPull\<close> is dropped without \<open>respond\<close>.
\<close>

definition handle_incoming_pull :: "peer_id \<Rightarrow> (incoming_pull \<Rightarrow> bytes option option) \<Rightarrow> io
    \<Rightarrow> (xfer_error + unit) \<times> io \<times> incoming_pull list" where
  "handle_incoming_pull peer reply s =
     (case read_hash s of
        (Inl e, s1) \<Rightarrow> (Inl e, s1, [])
      | (Inr hash, s1) \<Rightarrow>
          let request = \<lparr>pull_peer = peer, pull_hash = hash\<rparr>;
              data = (case reply request of None \<Rightarrow> None | Some d \<Rightarrow> d);
              (r, s2) =
                and_then (case data of
                    Some bs \<Rightarrow> and_then (write_all [1]) (\<lambda>_. write_frame bs)
                  | None \<Rightarrow> write_all [0]) (\<lambda>_. close_stream) s1
          in (r, s2, [request]))"

text \<open>
  The accept loops handle every incoming stream in a task of its own; the requests reach the
  receiver in some order.
\<close>

definition accept_pushes :: "lib \<Rightarrow> nat \<Rightarrow> (peer_id \<times> io) list \<Rightarrow> incoming_push list" where
  "accept_pushes L max_payload_len incoming =
     concat (List.map (\<lambda>(peer, s). snd (snd (handle_incoming_push L peer max_payload_len s))) incoming)"

definition accept_pulls :: "(incoming_pull \<Rightarrow> bytes option option) \<Rightarrow> (peer_id \<times> io) list \<Rightarrow> incoming_pull list" where
  "accept_pulls reply incoming =
     concat (List.map (\<lambda>(peer, s). snd (snd (handle_incoming_pull peer reply s))) incoming)"

end
