(* ===== verification/BlobTransferCorrect.thy ===== *)
theory BlobTransferCorrect
  imports BlobTransfer
begin

text \<open>
  Correctness of the blob transfer protocol: what a finished operation says about the bytes
  that crossed the wire, for both sides and for peers that do not follow the protocol.
\<close>

section \<open>What each side has done when it reports success\<close>

lemma close_stream_simps [simp]:
  "snd (close_stream s) = s" "fst (close_stream s) = (if close_ok s then Inr () else Inl CloseFailed)"
  by (simp_all add: close_stream_def)

lemma push_exchange_acked:
  assumes "push_exchange h d s = (Inr (Inr ()), t)"
  shows "tx t = tx s @ frame_bytes h @ frame_bytes d \<and> (\<exists>r. rx s = 1 # r) \<and>
         length h < 2 ^ 32 \<and> length d < 2 ^ 32"
proof -
  obtain u v w tag where u: "write_frame h s = (Inr (), u)" and v: "write_frame d u = (Inr (), v)"
    and tag: "read_exact 1 v = (Inr tag, w)" and rest: "(if tag ! 0 = 1 then io_return (Inr ())
       else and_then (read_frame 4096) (\<lambda>reason. io_return (Inl (Rejected reason)))) w = (Inr (Inr ()), t)"
    using assms by (auto simp: push_exchange_def and_then_Inr)
  have "tag ! 0 = 1 \<and> t = w"
    using rest by (auto simp: io_return_def and_then_Inr split: if_splits)
  moreover obtain b where "tag = [b]" "rx v = b # rx w" "w = v\<lparr>rx := rx w\<rparr>"
    using tag by (auto simp: read_exact_Inr length_Suc_conv)
  moreover have "tx w = tx v" using read_exact_tx[of 1 v] tag by simp
  ultimately show ?thesis using write_frame_Inr[OF u] write_frame_Inr[OF v] by auto
qed

lemma push_acked:
  assumes "push opened peer h d s = (Inr (), t, ev)"
  shows "opened \<and> push_exchange h d s = (Inr (Inr ()), t) \<and>
    ev = [\<lparr>ev_peer = peer, ev_hash = h, ev_len = length d, ev_direction = Push, ev_ok = True\<rparr>]"
  using assms by (auto simp: push_def split: if_splits prod.splits sum.splits)

lemma read_hash_Inr:
  "read_hash s = (Inr h, t) \<longleftrightarrow> read_frame 32 s = (Inr h, t) \<and> wf_hash h"
  by (auto simp: read_hash_def and_then_Inr HASH_MAX_LEN_def wf_hash_def io_return_def io_fail_def
      split: if_splits)

lemma read_hash_tx: "tx (snd (read_hash s)) = tx s"
  using read_frame_tx[of HASH_MAX_LEN s]
  by (auto simp: read_hash_def and_then_def io_return_def io_fail_def split: prod.splits sum.splits)

lemma read_push_Inr:
  "read_push m s = (Inr (h, d), t) \<longleftrightarrow>
     rx s = frame_bytes h @ frame_bytes d @ rx t \<and> wf_hash h \<and> frame_fits m d \<and> t = s\<lparr>rx := rx t\<rparr>"
    (is "?run \<longleftrightarrow> ?wire")
proof
  assume ?run
  then obtain u where u: "read_frame 32 s = (Inr h, u)" "wf_hash h" "read_frame m u = (Inr d, t)"
    by (auto simp: read_push_def and_then_Inr read_hash_Inr io_return_def)
  have uv: "u = s\<lparr>rx := rx u\<rparr>" "t = u\<lparr>rx := rx t\<rparr>"
    using u by (simp_all add: read_frame_Inr)
  have "t = s\<lparr>rx := rx u\<rparr>\<lparr>rx := rx t\<rparr>" by (subst uv(1)[symmetric]) (rule uv(2))
  with u show ?wire by (auto simp: read_frame_Inr frame_fits_def)
next
  assume w: ?wire
  let ?u = "s\<lparr>rx := frame_bytes d @ rx t\<rparr>"
  have "read_hash s = (Inr h, ?u)" using w by (simp add: read_hash_Inr read_frame_Inr wf_hash_def)
  moreover have "read_frame m ?u = (Inr d, t)" using w by (simp add: read_frame_Inr frame_fits_def)
  ultimately show ?run by (simp add: read_push_def and_then_run io_return_def)
qed

lemma read_push_tx: "tx (snd (read_push m s)) = tx s"
  using read_hash_tx[of s]
  by (auto simp: read_push_def and_then_def io_return_def split: prod.splits sum.splits)
    (metis read_frame_tx snd_conv)+

lemma write_all_prefix: "prefix (tx (snd (write_all bs s))) (tx s @ bs)"
  by (auto simp: write_all_def take_is_prefix split: option.splits)

lemma write_then_prefix:
  assumes "\<And>u. prefix (tx (snd (f () u))) (tx u @ b)"
  shows "prefix (tx (snd (and_then (write_all a) f s))) (tx s @ a @ b)"
proof (cases "write_all a s")
  case (Pair x u)
  show ?thesis
  proof (cases x)
    case (Inl e)
    have "prefix (tx u) (tx s @ a)" using write_all_prefix[of a s] Pair by simp
    then have "prefix (tx u) ((tx s @ a) @ b)" by (rule prefix_prefix)
    then show ?thesis using Pair Inl by (simp add: and_then_def)
  next
    case (Inr v)
    then show ?thesis using Pair assms[of u] write_all_Inr[of a s v u]
      by (simp add: and_then_def)
  qed
qed

lemma write_frame_prefix: "prefix (tx (snd (write_frame bs s))) (tx s @ frame_bytes bs)"
proof (cases "length bs < 2 ^ 32")
  case True
  then show ?thesis
    using write_then_prefix[OF write_all_prefix]
    by (simp add: write_frame_def try_into_u32_def frame_bytes_def)
next
  case False
  then show ?thesis by (simp add: write_frame_def try_into_u32_def io_fail_def)
qed

lemma integrity_reply:
  "prefix (tx (snd (and_then (write_all [0]) (\<lambda>_. write_frame msg) s))) (tx s @ [0] @ frame_bytes msg)"
  by (rule write_then_prefix) (rule write_frame_prefix)

text \<open>
  Inversion of the push handler: an error of the reading phase, a hash mismatch, or an
  accepted push; only the last delivers and only it can write the tag 1.
\<close>

lemma handle_incoming_push_cases:
  assumes "handle_incoming_push L p m s = (r, t, del)"
  obtains (read_error) e where "read_push m s = (Inl e, t)" "r = Inl e" "del = []"
  | (mismatch) h d u where "read_push m s = (Inr (h, d), u)" "blake3 L d \<noteq> h" "del = []"
      "prefix (tx t) (tx u @ [0] @ frame_bytes (integrity_message L (blake3 L d)))" "r \<noteq> Inr ()"
  | (no_ack) h d u e where "read_push m s = (Inr (h, d), u)" "blake3 L d = h"
      "write_all [1] u = (Inl e, t)" "r = Inl e" "del = []"
  | (accepted) h d u where "read_push m s = (Inr (h, d), u)" "blake3 L d = h"
      "write_all [1] u = (Inr (), t)" "r = Inr ()"
      "del = [\<lparr>push_peer = p, push_hash = h, push_data = d\<rparr>]"
proof (cases "read_push m s")
  case (Pair x u)
  show thesis
  proof (cases x)
    case (Inl e)
    then show thesis using Pair assms by (intro read_error[of e]) (auto simp: handle_incoming_push_def)
  next
    case (Inr hd)
    obtain h d where hd: "hd = (h, d)" by (cases hd)
    have run: "read_push m s = (Inr (h, d), u)" using Pair Inr hd by simp
    show thesis
    proof (cases "blake3 L d = h")
      case True
      show thesis
      proof (cases "write_all [1] u")
        case (Pair y v)
        show thesis
        proof (cases y)
          case (Inl e)
          then have "t = v" "r = Inl e" "del = []"
            using assms run True Pair by (simp_all add: handle_incoming_push_def)
          then show thesis using no_ack[OF run True] Pair Inl by simp
        next
          case (Inr w)
          then have "t = v" "r = Inr ()" "del = [\<lparr>push_peer = p, push_hash = h, push_data = d\<rparr>]"
            using assms run True Pair by (simp_all add: handle_incoming_push_def)
          then show thesis using accepted[OF run True] Pair Inr by simp
        qed
      qed
    next
      case False
      let ?reply = "and_then (write_all [0]) (\<lambda>_. write_frame (integrity_message L (blake3 L d))) u"
      obtain y v where reply: "?reply = (y, v)" by (cases ?reply)
      have "t = v \<and> del = [] \<and> r \<noteq> Inr ()"
        using assms run False reply by (cases y) (auto simp: handle_incoming_push_def)
      then show thesis
        using mismatch[OF run False] integrity_reply[of "integrity_message L (blake3 L d)" u] reply
        by simp
    qed
  qed
qed

section \<open>The acknowledgement\<close>

text \<open>The tag 1 is written only with the delivery of a payload that has the announced hash.\<close>

lemma ack_written_cases:
  assumes "handle_incoming_push L p m s = (r, t, del)" and "tx s = []" and "tx t = 1 # z"
  obtains h d where "rx s = frame_bytes h @ frame_bytes d @ drop (length (frame_bytes h @ frame_bytes d)) (rx s)"
    "wf_hash h" "frame_fits m d" "blake3 L d = h"
    "del = [\<lparr>push_peer = p, push_hash = h, push_data = d\<rparr>]" "r = Inr ()"
  using assms(1)
proof (cases rule: handle_incoming_push_cases)
  case (read_error e)
  then show thesis using assms read_push_tx[of m s] by simp
next
  case (mismatch h d u)
  then show thesis using assms read_push_tx[of m s] by simp
next
  case (no_ack h d u e)
  then have "tx u = []" using assms(2) read_push_tx[of m s] by simp
  then show thesis using write_all_Inl[OF no_ack(3)] assms(3)
    by (auto simp: strict_prefix_def prefix_def)
next
  case (accepted h d u)
  then show thesis using that[of h d] by (simp add: read_push_Inr)
qed

lemma run_read_frame_max:
  "run_read (read_frame m) bs = Some (d, r) \<Longrightarrow> run_read (read_frame (max m n)) bs = Some (d, r)"
  by (auto simp: run_read_frame frame_fits_def)

lemma frame_of_truncated:
  assumes "prefix (frame_bytes x @ r) (frame_bytes y @ s)" and "length x < 2 ^ 32" and "length y < 2 ^ 32"
  shows "x = y \<and> prefix r s"
proof (rule frame.get_from_truncated)
  show "run_read (read_frame (max (length x) (length y))) (frame_bytes x @ r) = Some (x, r)"
    using assms(2) by (simp add: run_read_frame frame_fits_def)
  show "frame_fits (max (length x) (length y)) y" using assms(3) by (simp add: frame_fits_def)
qed (rule assms(1))

lemma frames_of_truncated:
  assumes "prefix (frame_bytes h @ frame_bytes d @ r) (frame_bytes h' @ frame_bytes d')"
    and "length h < 2 ^ 32" "length h' < 2 ^ 32" "length d < 2 ^ 32" "length d' < 2 ^ 32"
  shows "h = h' \<and> d = d'"
proof -
  have *: "h = h' \<and> prefix (frame_bytes d @ r) (frame_bytes d')"
    using assms by (intro frame_of_truncated) auto
  moreover have "d = d' \<and> prefix r []"
    using * assms by (intro frame_of_truncated) auto
  ultimately show ?thesis by simp
qed

lemma wf_hash_short: "wf_hash h \<Longrightarrow> length h < 2 ^ 32"
  by (simp add: wf_hash_def)

text \<open>An acknowledged push was delivered by a peer that runs the push handler.\<close>

lemma acked_push_delivered:
  assumes "push opened peer h d sc = (Inr (), sc', ev)"
    and "handle_incoming_push L me m ss = (r, ss', del)"
    and "tx sc = []" and "tx ss = []" and "wf_hash h"
    and "prefix (rx ss) (tx sc')" and "prefix (rx sc) (tx ss')"
  shows "del = [\<lparr>push_peer = me, push_hash = h, push_data = d\<rparr>] \<and> blake3 L d = h \<and> length d \<le> m"
proof -
  from push_acked[OF assms(1)] have "push_exchange h d sc = (Inr (Inr ()), sc')" by blast
  from push_exchange_acked[OF this] obtain z where
    sent: "tx sc' = frame_bytes h @ frame_bytes d" "rx sc = 1 # z" "length d < 2 ^ 32"
    using assms(3) by auto
  then obtain z' where "tx ss' = 1 # z'" using assms(7) by (auto simp: prefix_def)
  from ack_written_cases[OF assms(2,4) this] obtain h' d' q where
    got: "rx ss = frame_bytes h' @ frame_bytes d' @ q" "wf_hash h'" "frame_fits m d'" "blake3 L d' = h'"
      "del = [\<lparr>push_peer = me, push_hash = h', push_data = d'\<rparr>]" by metis
  have "h' = h \<and> d' = d"
    using assms(5,6) sent got
    by (intro frames_of_truncated[of h' d' q]) (simp_all add: wf_hash_def frame_fits_def)
  with got show ?thesis by (simp add: frame_fits_def)
qed

section \<open>A sample session for the witnesses\<close>

definition sample_data :: bytes where
  "sample_data = [1, 2]"

definition sample_hash :: hash where
  "sample_hash = blake3 sample_lib sample_data"

definition sample_client :: io where
  "sample_client = \<lparr>rx = [1], tx = [], wr_left = None, close_ok = True\<rparr>"

definition sample_server :: io where
  "sample_server = \<lparr>rx = frame_bytes sample_hash @ frame_bytes sample_data, tx = [], wr_left = None, close_ok = True\<rparr>"

definition sample_puller :: io where
  "sample_puller = \<lparr>rx = 1 # frame_bytes sample_data, tx = [], wr_left = None, close_ok = True\<rparr>"

definition sample_pull_server :: io where
  "sample_pull_server = \<lparr>rx = frame_bytes sample_hash, tx = [], wr_left = None, close_ok = True\<rparr>"

lemma sample_io_simps [simp]:
  "rx sample_client = [1]" "tx sample_client = []" "wr_left sample_client = None"
  "rx sample_server = frame_bytes sample_hash @ frame_bytes sample_data"
  "tx sample_server = []" "wr_left sample_server = None"
  "rx sample_puller = 1 # frame_bytes sample_data" "tx sample_puller = []" "wr_left sample_puller = None"
  "rx sample_pull_server = frame_bytes sample_hash" "tx sample_pull_server = []"
  "wr_left sample_pull_server = None"
  by (simp_all add: sample_client_def sample_server_def sample_puller_def sample_pull_server_def)

lemma sample_hash_simps [simp]: "wf_hash sample_hash" "length sample_hash = 32" "length sample_data = 2"
   "blake3 sample_lib sample_data = sample_hash"
  by (simp_all add: sample_hash_def sample_lib_def wf_hash_def sample_data_def)

lemma sample_push: "push True [8] sample_hash sample_data sample_client = (Inr (),
   sample_client\<lparr>rx := [], tx := frame_bytes sample_hash @ frame_bytes sample_data\<rparr>,
   [\<lparr>ev_peer = [8], ev_hash = sample_hash, ev_len = 2, ev_direction = Push, ev_ok = True\<rparr>])"
  by (simp add: push_def push_exchange_def and_then_def write_frame_ok read_exact_def io_return_def)

lemma sample_handle: "handle_incoming_push sample_lib [9] 10 sample_server = (Inr (),
   sample_server\<lparr>rx := [], tx := [1]\<rparr>,
   [\<lparr>push_peer = [9], push_hash = sample_hash, push_data = sample_data\<rparr>])"
proof -
  have "read_push 10 sample_server = (Inr (sample_hash, sample_data), sample_server\<lparr>rx := []\<rparr>)"
    by (simp add: read_push_Inr frame_fits_def)
  then show ?thesis by (simp add: handle_incoming_push_def write_all_ok)
qed

lemma sample_pull: "pull sample_lib True [8] sample_hash 10 sample_puller = (Inr (Some sample_data),
   sample_puller\<lparr>rx := [], tx := frame_bytes sample_hash\<rparr>,
   [\<lparr>ev_peer = [8], ev_hash = sample_hash, ev_len = 2, ev_direction = Pull, ev_ok = True\<rparr>])"
proof -
  have "read_frame 10 (sample_puller\<lparr>tx := frame_bytes sample_hash, rx := frame_bytes sample_data\<rparr>) =
      (Inr sample_data, sample_puller\<lparr>tx := frame_bytes sample_hash, rx := []\<rparr>)"
    by (simp add: read_frame_Inr)
  then show ?thesis
    by (simp add: pull_def pull_exchange_def and_then_def write_frame_ok read_exact_def io_return_def
        Let_def)
qed

lemma sample_pull_handle:
  "handle_incoming_pull [9] (\<lambda>_. Some (Some sample_data)) sample_pull_server = (Inr (),
     sample_pull_server\<lparr>rx := [], tx := 1 # frame_bytes sample_data\<rparr>,
     [\<lparr>pull_peer = [9], pull_hash = sample_hash\<rparr>])"
proof -
  have "read_hash sample_pull_server = (Inr sample_hash, sample_pull_server\<lparr>rx := []\<rparr>)"
    by (simp add: read_hash_Inr read_frame_Inr)
  then show ?thesis
    by (simp add: handle_incoming_pull_def Let_def and_then_def write_all_ok write_frame_ok
        close_stream_def sample_pull_server_def)
qed

lemma sample_message [simp]: "length (integrity_message sample_lib sample_hash) \<le> 4096"
  by (simp add: integrity_message_def sample_lib_def str_bytes_def)

section \<open>Properties\<close>

text \<open>C4: An acknowledged push was delivered. The server reads a truncated copy of what the
  pusher wrote, the pusher a truncated copy of what the server wrote, and either connection
  may fail anywhere; the server's limit is arbitrary. If \<open>push\<close> returns \<open>Ok\<close>, the server handed
  exactly the pushed bytes, under the pushed hash, to its owner, and they hash to it.\<close>

theorem push_ack_delivered:
  assumes "push opened peer h d sc = (Inr (), sc', ev)"
    and "handle_incoming_push L me m ss = (r, ss', del)"
    and "tx sc = []" and "tx ss = []" and "wf_hash h"
    and "prefix (rx ss) (tx sc')" and "prefix (rx sc) (tx ss')"
  shows "del = [\<lparr>push_peer = me, push_hash = h, push_data = d\<rparr>] \<and> blake3 L d = h \<and> length d \<le> m"
  using assms by (rule acked_push_delivered)

theorem push_ack_delivered_witness:
  "blake3 sample_lib sample_data = sample_hash \<and>
   snd (snd (handle_incoming_push sample_lib [9] 10 sample_server)) =
     [\<lparr>push_peer = [9], push_hash = sample_hash, push_data = sample_data\<rparr>]"
  using push_ack_delivered[OF sample_push sample_handle] by (simp add: sample_handle)

text \<open>C21: A push over a working connection gets its answer: the server's handler and the
  pusher, each reading what the other writes, finish with \<open>Ok\<close> and one delivery when the bytes
  hash to the announced hash, and otherwise with the server's reason as the pusher's error
  and no delivery.\<close>

theorem push_session:
  assumes "wf_hash h" and "length d \<le> m" and "length d < 2 ^ 32"
    and "length (integrity_message L (blake3 L d)) \<le> 4096"
    and "wr_left sc = None" "tx sc = []" "wr_left ss = None" "tx ss = []"
    and "rx ss = frame_bytes h @ frame_bytes d"
    and "rx sc = tx (fst (snd (handle_incoming_push L me m ss)))"
  shows "tx (fst (snd (push True peer h d sc))) = rx ss \<and>
    (if blake3 L d = h
     then fst (push True peer h d sc) = Inr () \<and>
       snd (snd (handle_incoming_push L me m ss)) = [\<lparr>push_peer = me, push_hash = h, push_data = d\<rparr>]
     else fst (push True peer h d sc) = Inl (Rejected (integrity_message L (blake3 L d))) \<and>
       snd (snd (handle_incoming_push L me m ss)) = [])"
proof -
  let ?u = "ss\<lparr>rx := []\<rparr>"
  have run: "read_push m ss = (Inr (h, d), ?u)"
    using assms by (simp add: read_push_Inr frame_fits_def)
  have client: "write_frame h sc = (Inr (), sc\<lparr>tx := frame_bytes h\<rparr>)"
    "write_frame d (sc\<lparr>tx := frame_bytes h\<rparr>) = (Inr (), sc\<lparr>tx := frame_bytes h @ frame_bytes d\<rparr>)"
    using assms by (simp_all add: write_frame_ok wf_hash_def)
  show ?thesis
  proof (cases "blake3 L d = h")
    case True
    then have srv: "handle_incoming_push L me m ss = (Inr (), ?u\<lparr>tx := [1]\<rparr>,
        [\<lparr>push_peer = me, push_hash = h, push_data = d\<rparr>])"
      using run assms by (simp add: handle_incoming_push_def write_all_ok)
    have "push_exchange h d sc = (Inr (Inr ()), sc\<lparr>tx := frame_bytes h @ frame_bytes d, rx := []\<rparr>)"
      using assms srv by (simp add: push_exchange_def client and_then_def read_exact_def io_return_def)
    then show ?thesis using True srv assms by (simp add: push_def)
  next
    case False
    let ?msg = "integrity_message L (blake3 L d)"
    have srv: "handle_incoming_push L me m ss =
        (Inl (PushMismatch h (blake3 L d)), ?u\<lparr>tx := 0 # frame_bytes ?msg\<rparr>, [])"
      using False run assms
      by (simp add: handle_incoming_push_def Let_def and_then_def write_all_ok write_frame_ok)
    have "read_frame 4096 (sc\<lparr>tx := frame_bytes h @ frame_bytes d, rx := frame_bytes ?msg\<rparr>) =
        (Inr ?msg, sc\<lparr>tx := frame_bytes h @ frame_bytes d, rx := []\<rparr>)"
      using assms(4) by (simp add: read_frame_Inr)
    then have "push_exchange h d sc =
        (Inr (Inl (Rejected ?msg)), sc\<lparr>tx := frame_bytes h @ frame_bytes d, rx := []\<rparr>)"
      using assms srv by (simp add: push_exchange_def client and_then_def read_exact_def io_return_def)
    then show ?thesis using False srv assms by (simp add: push_def)
  qed
qed

theorem push_session_witness:
  "fst (push True [8] sample_hash sample_data sample_client) = Inr () \<and>
   tx (fst (snd (push True [8] sample_hash sample_data sample_client))) = rx sample_server"
  using push_session[of sample_hash sample_data 10 sample_lib sample_client sample_server "[9]" "[8]"]
  by (simp add: sample_handle)

text \<open>C20: A pull never returns foreign bytes: whatever the remote side sends, \<open>Ok(Some(data))\<close>
  means that \<open>data\<close> hashes to the requested hash and is within the caller's limit.\<close>

theorem pull_integrity:
  assumes "pull L opened peer h m s = (Inr (Some d), t, ev)"
  shows "blake3 L d = h \<and> length d \<le> m \<and>
    ev = [\<lparr>ev_peer = peer, ev_hash = h, ev_len = length d, ev_direction = Pull, ev_ok = True\<rparr>]"
proof -
  obtain u where "pull_exchange L h m s = (Inr (Inr (Some d)), u)" and
    ev: "ev = [\<lparr>ev_peer = peer, ev_hash = h, ev_len = length d, ev_direction = Pull, ev_ok = True\<rparr>]"
    using assms by (auto simp: pull_def split: if_splits prod.splits sum.splits)
  then obtain v where "read_frame m v = (Inr d, u)" and "blake3 L d = h"
    by (auto simp: pull_exchange_def and_then_Inr io_return_def Let_def split: if_splits)
  then show ?thesis using ev by (simp add: read_frame_Inr)
qed

theorem pull_integrity_witness:
  "blake3 sample_lib sample_data = sample_hash \<and> length sample_data \<le> 10"
  using pull_integrity[OF sample_pull] by simp

text \<open>C22: A pull over a working connection returns what the server's store answers: \<open>None\<close> for a
  missing blob and for a dropped request alike, the bytes when they hash to the request and fit
  the limit, and an error otherwise.\<close>

theorem pull_session:
  assumes "wf_hash h" and "wr_left sc = None" "tx sc = []" "wr_left ss = None" "tx ss = []"
    and "rx ss = frame_bytes h" and "rx sc = tx (fst (snd (handle_incoming_pull me reply ss)))"
    and answer: "answer = (case reply \<lparr>pull_peer = me, pull_hash = h\<rparr> of None \<Rightarrow> None | Some a \<Rightarrow> a)"
    and "\<And>d. answer = Some d \<Longrightarrow> length d < 2 ^ 32"
  shows "tx (fst (snd (pull L True peer h m sc))) = rx ss \<and>
    fst (pull L True peer h m sc) =
      (case answer of
         None \<Rightarrow> Inr None
       | Some d \<Rightarrow> if length d > m then Inl (FrameTooLong (length d) m)
           else if blake3 L d = h then Inr (Some d) else Inl (PullMismatch h (blake3 L d)))"
proof -
  have rd: "read_hash ss = (Inr h, ss\<lparr>rx := []\<rparr>)"
    using assms by (simp add: read_hash_Inr read_frame_Inr wf_hash_def)
  have client: "write_frame h sc = (Inr (), sc\<lparr>tx := frame_bytes h\<rparr>)"
    using assms by (simp add: write_frame_ok wf_hash_def)
  show ?thesis
  proof (cases answer)
    case None
    then have "tx (fst (snd (handle_incoming_pull me reply ss))) = [0]"
      using rd assms(4,5) answer[symmetric]
      by (simp add: handle_incoming_pull_def Let_def and_then_def write_all_ok close_stream_def)
    then have "pull_exchange L h m sc = (Inr (Inr None), sc\<lparr>tx := frame_bytes h, rx := []\<rparr>)"
      using assms by (simp add: pull_exchange_def client and_then_def read_exact_def io_return_def)
    then show ?thesis using None assms by (simp add: pull_def)
  next
    case (Some d)
    then have short: "length d < 2 ^ 32" using assms(9) by blast
    have wire: "tx (fst (snd (handle_incoming_pull me reply ss))) = 1 # frame_bytes d"
      using rd assms(4,5) answer[symmetric] Some short
      by (simp add: handle_incoming_pull_def Let_def and_then_def write_all_ok write_frame_ok
          close_stream_def)
    let ?c = "sc\<lparr>tx := frame_bytes h, rx := frame_bytes d\<rparr>"
    have start: "pull_exchange L h m sc = and_then (read_frame m) (\<lambda>data.
         let received_hash = blake3 L data in
         if received_hash = h then io_return (Inr (Some data))
         else io_return (Inl (PullMismatch h received_hash))) ?c"
      using assms wire by (simp add: pull_exchange_def client and_then_def read_exact_def)
    show ?thesis
    proof (cases "length d \<le> m")
      case True
      then have "read_frame m ?c = (Inr d, ?c\<lparr>rx := []\<rparr>)" using short by (simp add: read_frame_Inr)
      then show ?thesis using True Some start assms
        by (simp add: pull_def and_then_def io_return_def Let_def)
    next
      case False
      then have "read_frame m ?c = (Inl (FrameTooLong (length d) m), ?c\<lparr>rx := d\<rparr>)"
        using short by (simp add: read_frame_def and_then_def read_exact_def io_fail_def
            frame_bytes_def unat_of_nat take_bit_nat_eq_self)
      then show ?thesis using False Some start assms
        by (simp add: pull_def and_then_def)
    qed
  qed
qed

theorem pull_session_witness:
  "fst (pull sample_lib True [8] sample_hash 10 sample_puller) = Inr (Some sample_data)"
  using pull_session[of sample_hash sample_puller sample_pull_server "[9]" "\<lambda>_. Some (Some sample_data)"
      "Some sample_data" sample_lib "[8]" 10]
  by (simp add: sample_pull_handle)

text \<open>C25: What the push handler delivers, to whatever client: at most one payload, announced
  by a 32-byte hash that it has, within the limit, taken from the first two frames of the
  stream and acknowledged. Without a delivery the handler returns an error.\<close>

theorem handle_incoming_push_sound:
  assumes "handle_incoming_push L me m s = (r, t, del)"
  shows "(r = Inr () \<longleftrightarrow> del \<noteq> []) \<and> length del \<le> 1 \<and>
    (\<forall>p\<in>set del. push_peer p = me \<and> wf_hash (push_hash p) \<and> blake3 L (push_data p) = push_hash p \<and>
      length (push_data p) \<le> m \<and> tx t = tx s @ [1] \<and>
      prefix (frame_bytes (push_hash p) @ frame_bytes (push_data p)) (rx s))"
  using assms
proof (cases rule: handle_incoming_push_cases)
  case (accepted h d u)
  have "tx u = tx s" using accepted(1) read_push_tx[of m s] by simp
  with accepted show ?thesis
    by (auto simp: read_push_Inr frame_fits_def prefix_def dest: write_all_Inr)
qed auto

theorem handle_incoming_push_sound_witness:
  "length (push_data \<lparr>push_peer = [9], push_hash = sample_hash, push_data = sample_data\<rparr>) \<le> 10 \<and>
   prefix (frame_bytes sample_hash @ frame_bytes sample_data) (rx sample_server)"
  using handle_incoming_push_sound[OF sample_handle] by simp

text \<open>C27: Framing is a round trip. Written to a fresh stream and read back in front of any other
  bytes, a frame returns its payload and leaves the rest; and whatever \<open>read_frame\<close> accepts is
  the written form of what it returns.\<close>

theorem frame_roundtrip:
  "(length d < 2 ^ 32 \<longrightarrow> length d \<le> m \<longrightarrow>
      read_frame m \<lparr>rx = tx (snd (write_frame d \<lparr>rx = [], tx = [], wr_left = None, close_ok = c\<rparr>)) @ z,
                    tx = [], wr_left = w, close_ok = c\<rparr> =
        (Inr d, \<lparr>rx = z, tx = [], wr_left = w, close_ok = c\<rparr>)) \<and>
   (fst (read_frame m s) = Inr d \<longrightarrow>
      rx s = tx (snd (write_frame d \<lparr>rx = [], tx = [], wr_left = None, close_ok = c\<rparr>)) @ rx (snd (read_frame m s)))"
proof (intro conjI impI)
  assume "fst (read_frame m s) = Inr d"
  then have "read_frame m s = (Inr d, snd (read_frame m s))" by (metis prod.collapse)
  then show "rx s = tx (snd (write_frame d \<lparr>rx = [], tx = [], wr_left = None, close_ok = c\<rparr>)) @
      rx (snd (read_frame m s))"
    by (simp add: read_frame_Inr write_frame_ok)
qed (simp add: read_frame_Inr write_frame_ok)

theorem frame_roundtrip_witness:
  "read_frame 10 \<lparr>rx = tx (snd (write_frame sample_data \<lparr>rx = [], tx = [], wr_left = None, close_ok = True\<rparr>)) @ [5],
     tx = [], wr_left = None, close_ok = True\<rparr> =
   (Inr sample_data, \<lparr>rx = [5], tx = [], wr_left = None, close_ok = True\<rparr>)"
  using frame_roundtrip[of sample_data 10 True "[5]" None sample_server] by simp

end
