(* ===== verification/Bridge.thy ===== *)
theory Bridge
  imports Runtime
begin

text \<open>
  The HTTP bridge of the client, \<open>bin/client/src/bridge.rs\<close>: its state, the admission guard,
  the three request handlers and the handler of the coordinator's messages.

  The module \<open>client::admission\<close> that declares \<open>Status\<close>, \<open>ToPipeline\<close>, \<open>ToBridge\<close> and
  \<open>AdmittedBlob\<close> is not in the repository. Their constructors and fields below are the ones that
  the exhaustive matches and the literals of \<open>bridge.rs\<close> and \<open>coordinator.rs\<close> fix.

  A request handler suspends only at its \<open>await\<close>s; \<open>new_blob\<close> is therefore cut there into the
  steps \<open>new_blob_admit\<close>, \<open>body_step\<close>, \<open>new_blob_finish\<close> and \<open>new_blob_send\<close>, and \<open>new_blob\<close> runs
  them for one request. What a step cannot decide is an argument: the next event of the
  request body, whether the hashing task completes.
\<close>

section \<open>Messages and state\<close>

datatype status = Pending | Finalized | Failed "string option"

record admitted_blob =
  ab_id :: blob_id
  ab_root_hash :: hash
  ab_merkle_tree :: "hash list"
  ab_chunks :: "(hash \<times> bytes) list"
  ab_allowance :: nat

datatype to_pipeline = GetBlob blob_id | NewBlob admitted_blob

datatype to_bridge = UpdateStatus blob_id status

datatype status_code = OK | CREATED | ACCEPTED | BAD_REQUEST | NOT_FOUND | REQUEST_TIMEOUT | CONFLICT
  | LENGTH_REQUIRED | PAYLOAD_TOO_LARGE | INTERNAL_SERVER_ERROR | SERVICE_UNAVAILABLE

definition MAX_BLOB_SIZE :: nat where
  "MAX_BLOB_SIZE = 2 ^ 30"

definition TOTAL_CHUNK_BUDGET :: nat where
  "TOTAL_CHUNK_BUDGET = 1536"

definition BODY_IDLE_TIMEOUT :: duration where
  "BODY_IDLE_TIMEOUT = from_secs 30"

record timestamped_status =
  ts_at :: instant
  ts_status :: status

record bridge_state =
  hashing :: semaphore
  admission_budget :: semaphore
  status_map :: "blob_id \<rightharpoonup> timestamped_status list"

definition bridge_state_new :: bridge_state where
  "bridge_state_new = \<lparr>hashing = semaphore_new 2, admission_budget = semaphore_new TOTAL_CHUNK_BUDGET,
     status_map = Map.empty\<rparr>"

definition pending_at :: "instant \<Rightarrow> timestamped_status" where
  "pending_at now = \<lparr>ts_at = now, ts_status = Pending\<rparr>"

section \<open>The admission guard\<close>

record admission =
  adm_id :: blob_id
  adm_committed :: bool

definition admission_new :: "lib \<Rightarrow> instant \<Rightarrow> blob_id \<Rightarrow> bridge_state
    \<Rightarrow> (status_code + admission) \<times> bridge_state" where
  "admission_new L now bid st =
     (case magic_type_id L bid of
        None \<Rightarrow> (Inl BAD_REQUEST, st)
      | Some validated_id \<Rightarrow>
          (case status_map st validated_id of
             Some _ \<Rightarrow> (Inl CONFLICT, st)
           | None \<Rightarrow> (Inr \<lparr>adm_id = validated_id, adm_committed = False\<rparr>,
               st\<lparr>status_map := (status_map st)(validated_id \<mapsto> [pending_at now])\<rparr>)))"

definition admission_commit :: "admission \<Rightarrow> admission" where
  "admission_commit a = a\<lparr>adm_committed := True\<rparr>"

definition admission_drop :: "admission \<Rightarrow> bridge_state \<Rightarrow> bridge_state" where
  "admission_drop a st =
     (if adm_committed a then st else st\<lparr>status_map := (status_map st)(adm_id a := None)\<rparr>)"

text \<open>The response of a \<open>Reject\<close>: the code, and a \<open>Retry-After\<close> header on 503.\<close>

definition reject_response :: "status_code \<Rightarrow> status_code \<times> (string \<times> string) list" where
  "reject_response code =
     (case code of
        SERVICE_UNAVAILABLE \<Rightarrow> (code, [(''retry-after'', ''5'')])
      | _ \<Rightarrow> (code, []))"

section \<open>Declared length\<close>

definition digit_value :: "char \<Rightarrow> nat option" where
  "digit_value c = (let n = of_char c in if 48 \<le> n \<and> n \<le> (57 :: nat) then Some (n - 48) else None)"

fun parse_digits :: "nat \<Rightarrow> string \<Rightarrow> nat option" where
  "parse_digits acc [] = Some acc"
| "parse_digits acc (c # cs) =
     (case digit_value c of
        None \<Rightarrow> None
      | Some d \<Rightarrow> if acc * 10 + d < 2 ^ 64 then parse_digits (acc * 10 + d) cs else None)"

text \<open>\<open>str::parse::<usize>\<close>: an optional plus sign, at least one digit, at most \<open>u64::MAX\<close>.\<close>

definition parse_usize :: "string \<Rightarrow> nat option" where
  "parse_usize s =
     (case s of
        [] \<Rightarrow> None
      | c # cs \<Rightarrow> if c = CHR ''+'' then (if cs = [] then None else parse_digits 0 cs)
          else parse_digits 0 s)"

definition declared_len :: "lib \<Rightarrow> bytes option \<Rightarrow> nat option" where
  "declared_len L content_length =
     Option.bind content_length (\<lambda>v. Option.bind (header_to_str L v) parse_usize)"

definition div_ceil :: "nat \<Rightarrow> nat \<Rightarrow> nat" where
  "div_ceil n d = n div d + (if n mod d > 0 then 1 else 0)"

section \<open>Uploading a blob\<close>

text \<open>The local state of a running \<open>new_blob\<close>: its guards and its loop variables.\<close>

record upload =
  up_id :: blob_id
  up_admission :: admission
  up_allowance :: nat
  up_declared :: nat
  up_num_chunks :: nat
  up_buf :: bytes
  up_chunks :: "(hash \<times> bytes) list"
  up_received :: nat

definition new_blob_admit :: "lib \<Rightarrow> instant \<Rightarrow> blob_id \<Rightarrow> bytes option \<Rightarrow> bridge_state
    \<Rightarrow> (status_code + upload) \<times> bridge_state" where
  "new_blob_admit L now bid content_length st =
     (case declared_len L content_length of
        None \<Rightarrow> (Inl LENGTH_REQUIRED, st)
      | Some declared \<Rightarrow>
          if declared = 0 then (Inl BAD_REQUEST, st)
          else
            let num_chunks = div_ceil declared (chunk_size L) in
            if declared > MAX_BLOB_SIZE \<or> num_chunks > TOTAL_CHUNK_BUDGET
            then (Inl PAYLOAD_TOO_LARGE, st)
            else
              (case admission_new L now bid st of
                 (Inl code, st1) \<Rightarrow> (Inl code, st1)
               | (Inr adm, st1) \<Rightarrow>
                   (case try_acquire_many (num_chunks mod 2 ^ 32) (admission_budget st1) of
                      None \<Rightarrow> (Inl SERVICE_UNAVAILABLE, admission_drop adm st1)
                    | Some budget \<Rightarrow>
                        (Inr \<lparr>up_id = bid, up_admission = adm, up_allowance = num_chunks mod 2 ^ 32,
                           up_declared = declared, up_num_chunks = num_chunks,
                           up_buf = [], up_chunks = [], up_received = 0\<rparr>,
                         st1\<lparr>admission_budget := budget\<rparr>))))"

definition hash_chunk :: "lib \<Rightarrow> bool \<Rightarrow> bytes \<Rightarrow> status_code + hash \<times> bytes" where
  "hash_chunk L completes chunk =
     (if completes then Inr (blake3 L chunk, chunk) else Inl INTERNAL_SERVER_ERROR)"

text \<open>
  The inner loop over one frame. It makes progress only while the buffer is not full, so it is a
  partial function; \<open>None\<close> is a loop that never ends.
\<close>

partial_function (option) fill :: "lib \<Rightarrow> bool \<Rightarrow> bytes \<Rightarrow> (hash \<times> bytes) list \<Rightarrow> bytes
    \<Rightarrow> (status_code + bytes \<times> (hash \<times> bytes) list) option" where
  "fill L completes buf chunks data =
     (if data = [] then Some (Inr (buf, chunks))
      else
        let take_len = min (chunk_size L - length buf) (length data);
            buf' = buf @ take take_len data;
            data' = drop take_len data
        in if length buf' = chunk_size L then
             (case hash_chunk L completes buf' of
                Inl code \<Rightarrow> Some (Inl code)
              | Inr hc \<Rightarrow> fill L completes [] (chunks @ [hc]) data')
           else fill L completes buf' chunks data')"

datatype body_event = Frame bytes | FrameError | IdleTimeout

definition body_step :: "lib \<Rightarrow> bool \<Rightarrow> body_event \<Rightarrow> upload \<Rightarrow> (status_code + upload) option" where
  "body_step L completes ev u =
     (case ev of
        IdleTimeout \<Rightarrow> Some (Inl REQUEST_TIMEOUT)
      | FrameError \<Rightarrow> Some (Inl BAD_REQUEST)
      | Frame data \<Rightarrow>
          let received = (up_received u + length data) mod 2 ^ 64 in
          if received > up_declared u then Some (Inl BAD_REQUEST)
          else
            (case fill L completes (up_buf u) (up_chunks u) data of
               None \<Rightarrow> None
             | Some (Inl code) \<Rightarrow> Some (Inl code)
             | Some (Inr (buf, chunks)) \<Rightarrow>
                 Some (Inr (u\<lparr>up_received := received, up_buf := buf, up_chunks := chunks\<rparr>))))"

fun body_loop :: "lib \<Rightarrow> (bool \<times> body_event) list \<Rightarrow> upload \<Rightarrow> (status_code + upload) option" where
  "body_loop L [] u = Some (Inr u)"
| "body_loop L ((completes, ev) # evs) u =
     (case body_step L completes ev u of
        None \<Rightarrow> None
      | Some (Inl code) \<Rightarrow> Some (Inl code)
      | Some (Inr u') \<Rightarrow> body_loop L evs u')"

definition new_blob_finish :: "lib \<Rightarrow> bool \<Rightarrow> upload \<Rightarrow> status_code + admitted_blob" where
  "new_blob_finish L completes u =
     (if up_received u \<noteq> up_declared u then Inl BAD_REQUEST
      else
        case (if up_buf u = [] then Inr (up_chunks u)
              else case hash_chunk L completes (up_buf u) of
                  Inl code \<Rightarrow> Inl code
                | Inr hc \<Rightarrow> Inr (up_chunks u @ [hc])) of
          Inl code \<Rightarrow> Inl code
        | Inr chunks \<Rightarrow>
            let leaves = List.map fst chunks in
            (case merkle_root L leaves of
               None \<Rightarrow> Inl INTERNAL_SERVER_ERROR
             | Some root_hash \<Rightarrow>
                 Inr \<lparr>ab_id = up_id u, ab_root_hash = root_hash, ab_merkle_tree = leaves,
                      ab_chunks = chunks, ab_allowance = up_allowance u\<rparr>))"

text \<open>
  Leaving \<open>new_blob\<close> on an error drops its locals in reverse order: the allowance, then the
  admission.
\<close>

definition upload_drop :: "upload \<Rightarrow> bridge_state \<Rightarrow> bridge_state" where
  "upload_drop u st =
     admission_drop (up_admission u)
       (st\<lparr>admission_budget := release_many (up_allowance u) (admission_budget st)\<rparr>)"

text \<open>
  Handing over: a closed channel returns the message, whose allowance is then dropped with
  the admission; after a successful send the admission is committed before it is dropped.
  \<open>None\<close> means that the channel is full and the handler waits.
\<close>

definition new_blob_send :: "upload \<Rightarrow> admitted_blob \<Rightarrow> bridge_state \<Rightarrow> to_pipeline channel
    \<Rightarrow> ((status_code + status_code \<times> string) \<times> bridge_state \<times> to_pipeline channel) option" where
  "new_blob_send u blob st ch =
     (case chan_send (NewBlob blob) ch of
        Closed \<Rightarrow> Some (Inl INTERNAL_SERVER_ERROR, upload_drop u st, ch)
      | WouldWait \<Rightarrow> None
      | Sent ch' \<Rightarrow>
          Some (Inr (CREATED, up_id u), admission_drop (admission_commit (up_admission u)) st, ch'))"

text \<open>One request from start to end, for a body whose events are given.\<close>

definition new_blob :: "lib \<Rightarrow> instant \<Rightarrow> blob_id \<Rightarrow> bytes option \<Rightarrow> (bool \<times> body_event) list \<Rightarrow> bool
    \<Rightarrow> bridge_state \<Rightarrow> to_pipeline channel
    \<Rightarrow> ((status_code + status_code \<times> string) \<times> bridge_state \<times> to_pipeline channel) option" where
  "new_blob L now bid content_length body completes st ch =
     (case new_blob_admit L now bid content_length st of
        (Inl code, st1) \<Rightarrow> Some (Inl code, st1, ch)
      | (Inr u, st1) \<Rightarrow>
          (case body_loop L body u of
             None \<Rightarrow> None
           | Some (Inl code) \<Rightarrow> Some (Inl code, upload_drop u st1, ch)
           | Some (Inr u') \<Rightarrow>
               (case new_blob_finish L completes u' of
                  Inl code \<Rightarrow> Some (Inl code, upload_drop u' st1, ch)
                | Inr blob \<Rightarrow> new_blob_send u' blob st1 ch)))"

section \<open>Reading and updating statuses\<close>

text \<open>\<open>None\<close> is the panic of \<open>status_list.last().unwrap()\<close> on an empty list.\<close>

definition last_status :: "timestamped_status list \<Rightarrow> status option" where
  "last_status l = (if l = [] then None else Some (ts_status (last l)))"

definition get_status :: "bridge_state \<Rightarrow> blob_id \<Rightarrow> (status_code \<times> status option) option" where
  "get_status st bid =
     (case status_map st bid of
        None \<Rightarrow> Some (NOT_FOUND, None)
      | Some l \<Rightarrow> (case last_status l of None \<Rightarrow> None | Some s \<Rightarrow> Some (OK, Some s)))"

text \<open>\<open>get_blob\<close> up to its \<open>await\<close>: validate the id and find or create the entry.\<close>

definition get_blob_entry :: "lib \<Rightarrow> instant \<Rightarrow> blob_id \<Rightarrow> bridge_state
    \<Rightarrow> (status_code + blob_id \<times> status) option \<times> bridge_state" where
  "get_blob_entry L now bid st =
     (case magic_type_id L bid of
        None \<Rightarrow> (Some (Inl BAD_REQUEST), st)
      | Some validated_id \<Rightarrow>
          (case status_map st validated_id of
             Some l \<Rightarrow> (map_option (\<lambda>s. Inr (validated_id, s)) (last_status l), st)
           | None \<Rightarrow> (Some (Inr (validated_id, Pending)),
               st\<lparr>status_map := (status_map st)(validated_id \<mapsto> [pending_at now])\<rparr>)))"

definition get_blob_reply :: "blob_id \<Rightarrow> status \<Rightarrow> to_pipeline channel
    \<Rightarrow> ((status_code + status_code \<times> string) \<times> to_pipeline channel) option" where
  "get_blob_reply validated_id s ch =
     (case s of
        Pending \<Rightarrow>
          (case chan_send (GetBlob validated_id) ch of
             Closed \<Rightarrow> Some (Inl INTERNAL_SERVER_ERROR, ch)
           | WouldWait \<Rightarrow> None
           | Sent ch' \<Rightarrow> Some (Inr (ACCEPTED, validated_id), ch'))
      | Finalized \<Rightarrow> Some (Inr (OK, validated_id), ch)
      | Failed reason \<Rightarrow> Some (Inr (OK, case reason of None \<Rightarrow> '''' | Some r \<Rightarrow> r), ch))"

definition get_blob :: "lib \<Rightarrow> instant \<Rightarrow> blob_id \<Rightarrow> bridge_state \<Rightarrow> to_pipeline channel
    \<Rightarrow> ((status_code + status_code \<times> string) \<times> bridge_state \<times> to_pipeline channel) option" where
  "get_blob L now bid st ch =
     (case get_blob_entry L now bid st of
        (None, _) \<Rightarrow> None
      | (Some (Inl code), st1) \<Rightarrow> Some (Inl code, st1, ch)
      | (Some (Inr (validated_id, s)), st1) \<Rightarrow>
          (case get_blob_reply validated_id s ch of
             None \<Rightarrow> None
           | Some (r, ch1) \<Rightarrow> Some (r, st1, ch1)))"

text \<open>The message loop of \<open>bridge::run\<close> on one message of the coordinator.\<close>

definition bridge_message :: "instant \<Rightarrow> to_bridge \<Rightarrow> bridge_state \<Rightarrow> bridge_state" where
  "bridge_message now m st =
     (case m of UpdateStatus bid s \<Rightarrow>
        (case status_map st bid of
           Some l \<Rightarrow> st\<lparr>status_map := (status_map st)(bid \<mapsto> l @ [\<lparr>ts_at = now, ts_status = s\<rparr>])\<rparr>
         | None \<Rightarrow> st))"

end
