(* ===== verification/BridgeCorrect.thy ===== *)
theory BridgeCorrect
  imports Bridge
begin

text \<open>
  Correctness of the HTTP bridge: the chunking of a request body against the split of the
  whole body into pieces, the guards of an upload as scoped resources, the reservations they
  make, and the status table.
\<close>

section \<open>Scoped resources\<close>

text \<open>
  The contract of a guard: a failed acquisition changes nothing, and dropping a guard right
  after acquiring it restores the state. Two guards taken one after the other and dropped in
  reverse order are a guard again.
\<close>

locale guard =
  fixes acquire :: "'s \<Rightarrow> ('e + 'g) \<times> 's"
    and drop_guard :: "'g \<Rightarrow> 's \<Rightarrow> 's"
  assumes acquire_failed: "acquire s = (Inl e, s') \<Longrightarrow> s' = s"
    and drop_acquired: "acquire s = (Inr g, s') \<Longrightarrow> drop_guard g s' = s"
begin

lemma acquire_cases:
  obtains (failed) e where "acquire s = (Inl e, s)"
  | (acquired) g s' where "acquire s = (Inr g, s')" "drop_guard g s' = s"
  using acquire_failed drop_acquired
  by (metis old.sum.exhaust surj_pair)

text \<open>Running a body on an acquired guard and dropping it leaves only the body's effect.\<close>

lemma drop_transparent:
  assumes "acquire s = (Inr g, s')" and "\<And>t. drop_guard g (f t) = f (drop_guard g t)"
  shows "drop_guard g (f s') = f s"
  using assms drop_acquired by simp

end

interpretation admission: guard "admission_new L now bid" admission_drop for L now bid
  by unfold_locales
    (auto simp: admission_new_def admission_drop_def fun_upd_idem split: option.splits)

interpretation upload: guard "new_blob_admit L now bid hdr" upload_drop for L now bid hdr
proof unfold_locales
  fix s e s'
  assume "new_blob_admit L now bid hdr s = (Inl e, s')"
  then show "s' = s"
    using admission.acquire_failed[of L now bid s] admission.drop_acquired[of L now bid s]
    by (fastforce simp: new_blob_admit_def Let_def split: option.splits if_splits prod.splits sum.splits)
next
  fix s u s'
  assume "new_blob_admit L now bid hdr s = (Inr u, s')"
  then obtain adm st1 b n where "admission_new L now bid s = (Inr adm, st1)"
    "try_acquire_many n (admission_budget st1) = Some b" "s' = st1\<lparr>admission_budget := b\<rparr>"
    "up_admission u = adm" "up_allowance u = n"
    by (auto simp: new_blob_admit_def Let_def split: option.splits if_splits prod.splits sum.splits)
  then show "upload_drop u s' = s"
    using admission.drop_acquired[of L now bid s adm st1] sem.release_acquire
    by (simp add: upload_drop_def)
qed

section \<open>Declared length\<close>






section \<open>Chunking\<close>

text \<open>The specification: a byte string cut into pieces of \<open>n\<close> bytes, the last one shorter.\<close>

function pieces :: "nat \<Rightarrow> 'a list \<Rightarrow> 'a list list" where
  "pieces n xs = (if n = 0 \<or> xs = [] then [] else take n xs # pieces n (drop n xs))"
  by pat_completeness auto
termination
  by (relation "measure (\<lambda>(n, xs). length xs)") auto

declare pieces.simps [simp del]

lemma pieces_Nil [simp]: "pieces n [] = []"
  by (simp add: pieces.simps)

lemma pieces_short: "xs \<noteq> [] \<Longrightarrow> length xs \<le> n \<Longrightarrow> pieces n xs = [xs]"
  by (subst pieces.simps) (cases n, auto)

lemma pieces_full: "0 < n \<Longrightarrow> length x = n \<Longrightarrow> pieces n (x @ xs) = x # pieces n xs"
  by (subst pieces.simps) auto

lemma pieces_concat:
  assumes "0 < n" and "\<forall>c\<in>set cs. length c = n" and "length buf < n"
  shows "pieces n (concat cs @ buf) = cs @ (if buf = [] then [] else [buf])"
  using assms(2)
proof (induction cs)
  case Nil
  then show ?case using assms by (simp add: pieces_short)
next
  case (Cons c cs)
  then show ?case using assms pieces_full[of n c "concat cs @ buf"] by simp
qed

lemma concat_pieces: "0 < n \<Longrightarrow> concat (pieces n xs) = xs"
proof (induction n xs rule: pieces.induct)
  case (1 n xs)
  then show ?case by (cases "xs = []") (simp_all add: pieces.simps[of n xs])
qed

lemma length_pieces: "0 < n \<Longrightarrow> length (pieces n xs) = div_ceil (length xs) n"
proof (induction n xs rule: pieces.induct)
  case (1 n xs)
  show ?case
  proof (cases "xs = []")
    case False
    then have step: "length (pieces n xs) = Suc (div_ceil (length xs - n) n)"
      using 1 by (simp add: pieces.simps[of n xs])
    show ?thesis
    proof (cases "length xs < n")
      case True
      then show ?thesis using step False "1.prems" by (simp add: div_ceil_def)
    next
      case False
      then have "length xs div n = Suc ((length xs - n) div n)" "length xs mod n = (length xs - n) mod n"
        using "1.prems" by (simp_all add: le_div_geq le_mod_geq)
      then show ?thesis using step by (simp add: div_ceil_def)
    qed
  qed (simp add: div_ceil_def)
qed

lemma piece_length: "0 < n \<Longrightarrow> c \<in> set (pieces n xs) \<Longrightarrow> 0 < length c \<and> length c \<le> n"
proof (induction n xs rule: pieces.induct)
  case (1 n xs)
  then show ?case by (cases "xs = []") (auto simp: pieces.simps[of n xs])
qed

text \<open>The hashed form in which the handler keeps a chunk.\<close>

definition hashed :: "lib \<Rightarrow> bytes \<Rightarrow> hash \<times> bytes" where
  "hashed L c = (blake3 L c, c)"

text \<open>
  The invariant of the inner loop: what is left in the buffer is less than a chunk, the
  chunks so far are full and hashed, and together they are the bytes seen so far.
\<close>

definition chunked :: "lib \<Rightarrow> bytes \<Rightarrow> bytes \<Rightarrow> (hash \<times> bytes) list \<Rightarrow> bool" where
  "chunked L seen buf chunks \<longleftrightarrow>
     length buf < chunk_size L \<and>
     (\<exists>cs. chunks = List.map (hashed L) cs \<and> (\<forall>c\<in>set cs. length c = chunk_size L) \<and> concat cs @ buf = seen)"

lemma chunkedI:
  "length buf < chunk_size L \<Longrightarrow> chunks = List.map (hashed L) cs \<Longrightarrow>
   \<forall>c\<in>set cs. length c = chunk_size L \<Longrightarrow> concat cs @ buf = seen \<Longrightarrow> chunked L seen buf chunks"
  by (auto simp: chunked_def)

lemma chunked_start: "0 < chunk_size L \<Longrightarrow> chunked L [] [] []"
  by (simp add: chunked_def)

lemma chunked_full:
  assumes "chunked L seen buf chunks" and "length (buf @ d) = chunk_size L"
  shows "chunked L (seen @ d) [] (chunks @ [hashed L (buf @ d)])"
proof -
  obtain cs where "chunks = List.map (hashed L) cs" "\<forall>c\<in>set cs. length c = chunk_size L" "concat cs @ buf = seen"
    using assms(1) by (auto simp: chunked_def)
  then show ?thesis using assms by (intro chunkedI[where cs = "cs @ [buf @ d]"]) (auto simp: chunked_def)
qed

lemma chunked_partial:
  assumes "chunked L seen buf chunks" and "length (buf @ d) < chunk_size L"
  shows "chunked L (seen @ d) (buf @ d) chunks"
  using assms by (auto simp: chunked_def)

lemma chunked_pieces:
  assumes "chunked L seen buf chunks"
  shows "chunks @ (if buf = [] then [] else [hashed L buf]) = List.map (hashed L) (pieces (chunk_size L) seen)"
proof -
  obtain cs where "chunks = List.map (hashed L) cs" "\<forall>c\<in>set cs. length c = chunk_size L" "concat cs @ buf = seen"
    and "length buf < chunk_size L"
    using assms by (auto simp: chunked_def)
  then show ?thesis using pieces_concat[of "chunk_size L" cs buf] by auto
qed

text \<open>
  The inner loop returns whenever chunks are not empty, keeps the invariant, and can fail
  only when the hashing task does. Before every iteration the buffer is shorter than a
  chunk, so the subtraction \<open>CHUNK_SIZE - buf.len()\<close> never underflows.
\<close>

lemma fill_returns:
  assumes "chunked L seen buf chunks"
  shows "(\<exists>buf' chunks'. fill L completes buf chunks data = Some (Inr (buf', chunks')) \<and>
            chunked L (seen @ data) buf' chunks') \<or>
         (fill L completes buf chunks data = Some (Inl INTERNAL_SERVER_ERROR) \<and> \<not> completes)"
  using assms
proof (induction data arbitrary: seen buf chunks rule: length_induct)
  case (1 data)
  show ?case
  proof (cases "data = []")
    case True
    then show ?thesis using "1.prems" by (simp add: fill.simps)
  next
    case False
    define k where "k = min (chunk_size L - length buf) (length data)"
    have buf: "length buf < chunk_size L" using "1.prems" by (simp add: chunked_def)
    have k: "0 < k" "k \<le> length data" using False buf by (auto simp: k_def)
    have shorter: "length (drop k data) < length data" using k by simp
    show ?thesis
    proof (cases "length (buf @ take k data) = chunk_size L")
      case True
      note next_inv = chunked_full[OF "1.prems" True]
      show ?thesis
      proof (cases completes)
        case True
        then have "fill L completes buf chunks data =
            fill L completes [] (chunks @ [hashed L (buf @ take k data)]) (drop k data)"
          using False \<open>length (buf @ take k data) = chunk_size L\<close>
          by (subst fill.simps) (simp add: Let_def k_def hash_chunk_def hashed_def)
        then show ?thesis using "1.IH"[rule_format, OF shorter next_inv] by simp
      next
        case False
        then have "fill L completes buf chunks data = Some (Inl INTERNAL_SERVER_ERROR)"
          using \<open>data \<noteq> []\<close> \<open>length (buf @ take k data) = chunk_size L\<close>
          by (subst fill.simps) (simp add: Let_def k_def hash_chunk_def)
        then show ?thesis using False by simp
      qed
    next
      case part: False
      then have "length (buf @ take k data) < chunk_size L" using buf by (auto simp: k_def)
      note next_inv = chunked_partial[OF "1.prems" this]
      have "fill L completes buf chunks data = fill L completes (buf @ take k data) chunks (drop k data)"
        using False part by (subst fill.simps) (simp add: Let_def k_def)
      then show ?thesis using "1.IH"[rule_format, OF shorter next_inv] by simp
    qed
  qed
qed

section \<open>The body loop\<close>

fun event_bytes :: "body_event \<Rightarrow> bytes" where
  "event_bytes (Frame d) = d"
| "event_bytes _ = []"

definition body_bytes :: "(bool \<times> body_event) list \<Rightarrow> bytes" where
  "body_bytes evs = concat (List.map (event_bytes \<circ> snd) evs)"

text \<open>A Rust allocation holds at most \<open>isize::MAX\<close> bytes, so does a frame.\<close>

definition frames_fit :: "(bool \<times> body_event) list \<Rightarrow> bool" where
  "frames_fit evs \<longleftrightarrow> (\<forall>ev\<in>snd ` set evs. length (event_bytes ev) < 2 ^ 63)"

lemma body_bytes_simps [simp]:
  "body_bytes [] = []" "body_bytes ((c, ev) # evs) = event_bytes ev @ body_bytes evs"
  by (simp_all add: body_bytes_def)

lemma frames_fit_Cons [simp]:
  "frames_fit ((c, ev) # evs) \<longleftrightarrow> length (event_bytes ev) < 2 ^ 63 \<and> frames_fit evs"
  by (simp add: frames_fit_def)

text \<open>The fields the loop never writes.\<close>

definition same_request :: "upload \<Rightarrow> upload \<Rightarrow> bool" where
  "same_request u v \<longleftrightarrow> up_id u = up_id v \<and> up_admission u = up_admission v \<and>
     up_allowance u = up_allowance v \<and> up_declared u = up_declared v \<and> up_num_chunks u = up_num_chunks v"

lemma same_request_refl [simp]: "same_request u u"
  by (simp add: same_request_def)

lemma same_request_trans: "same_request u v \<Longrightarrow> same_request v w \<Longrightarrow> same_request u w"
  by (simp add: same_request_def)

lemma body_step_same_request: "body_step L c ev u = Some (Inr v) \<Longrightarrow> same_request u v"
  by (auto simp: body_step_def same_request_def Let_def split: body_event.splits if_splits option.splits sum.splits)

lemma body_loop_same_request: "body_loop L evs u = Some (Inr v) \<Longrightarrow> same_request u v"
proof (induction L evs u rule: body_loop.induct)
  case (2 L c ev evs u)
  then obtain w where "body_step L c ev u = Some (Inr w)" "body_loop L evs w = Some (Inr v)"
    by (auto split: option.splits sum.splits)
  then show ?case using 2 body_step_same_request same_request_trans by blast
qed simp

lemma upload_drop_same_request: "same_request u v \<Longrightarrow> upload_drop u st = upload_drop v st"
  by (simp add: upload_drop_def same_request_def)

text \<open>The invariant of the outer loop, for the bytes received so far.\<close>

definition upload_inv :: "lib \<Rightarrow> bytes \<Rightarrow> upload \<Rightarrow> bool" where
  "upload_inv L seen u \<longleftrightarrow>
     chunked L seen (up_buf u) (up_chunks u) \<and> up_received u = length seen \<and>
     length seen \<le> up_declared u \<and> up_declared u \<le> MAX_BLOB_SIZE"

text \<open>The sum of the counter and a frame's length does not wrap.\<close>

lemma received_exact:
  assumes "upload_inv L seen u" and "length d < 2 ^ 63"
  shows "(up_received u + length d) mod 2 ^ 64 = length (seen @ d)"
  using assms by (simp add: upload_inv_def MAX_BLOB_SIZE_def)

lemma body_step_frame:
  assumes "upload_inv L seen u" and "length d < 2 ^ 63"
  shows "(length (seen @ d) > up_declared u \<and> body_step L c (Frame d) u = Some (Inl BAD_REQUEST)) \<or>
    (\<exists>u'. length (seen @ d) \<le> up_declared u \<and> body_step L c (Frame d) u = Some (Inr u') \<and>
       upload_inv L (seen @ d) u') \<or>
    (length (seen @ d) \<le> up_declared u \<and> \<not> c \<and> body_step L c (Frame d) u = Some (Inl INTERNAL_SERVER_ERROR))"
proof (cases "length (seen @ d) > up_declared u")
  case True
  then show ?thesis using received_exact[OF assms] by (simp add: body_step_def)
next
  case False
  have "chunked L seen (up_buf u) (up_chunks u)" using assms by (simp add: upload_inv_def)
  from fill_returns[OF this, of c d] show ?thesis
    using False received_exact[OF assms] assms(1)
    by (auto simp: body_step_def upload_inv_def)
qed

lemma body_loop_Inr:
  assumes "upload_inv L seen u" and "frames_fit evs" and "body_loop L evs u = Some (Inr v)"
  shows "upload_inv L (seen @ body_bytes evs) v"
  using assms
proof (induction evs arbitrary: seen u)
  case (Cons e evs)
  obtain c ev where e: "e = (c, ev)" by (cases e)
  obtain w where w: "body_step L c ev u = Some (Inr w)" "body_loop L evs w = Some (Inr v)"
    using Cons.prems(3) e by (auto split: option.splits sum.splits)
  then obtain d where ev: "ev = Frame d" by (cases ev) (auto simp: body_step_def)
  have "upload_inv L (seen @ d) w"
    using body_step_frame[OF Cons.prems(1), of d c] Cons.prems(2) e ev w(1) by auto
  from Cons.IH[OF this _ w(2)] show ?case using Cons.prems(2) e ev by simp
qed simp

lemma body_loop_ok:
  assumes "upload_inv L seen u" and "length (seen @ concat ds) \<le> up_declared u"
  shows "\<exists>v. body_loop L (List.map (\<lambda>d. (True, Frame d)) ds) u = Some (Inr v) \<and>
    upload_inv L (seen @ concat ds) v \<and> same_request u v"
  using assms
proof (induction ds arbitrary: seen u)
  case (Cons d ds)
  have "length d < 2 ^ 63" using Cons.prems by (simp add: upload_inv_def MAX_BLOB_SIZE_def)
  from body_step_frame[OF Cons.prems(1) this, of True] obtain w where
    w: "body_step L True (Frame d) u = Some (Inr w)" "upload_inv L (seen @ d) w"
    using Cons.prems(2) by auto
  have same: "same_request u w" using body_step_same_request[OF w(1)] .
  then have "length ((seen @ d) @ concat ds) \<le> up_declared w"
    using Cons.prems(2) by (simp add: same_request_def)
  from Cons.IH[OF w(2) this] same show ?case
    using w(1) by (auto intro: same_request_trans)
qed simp

text \<open>The loop returns for every body, also when the counter of received bytes would wrap.\<close>

lemma body_step_returns:
  assumes "chunked L seen (up_buf u) (up_chunks u)"
  shows "\<exists>r. body_step L c ev u = Some r \<and>
    (\<forall>v. r = Inr v \<longrightarrow> (\<exists>seen'. chunked L seen' (up_buf v) (up_chunks v)))"
proof (cases ev)
  case (Frame d)
  from fill_returns[OF assms, of c d] show ?thesis
    by (auto simp: body_step_def Frame Let_def)
qed (auto simp: body_step_def)

lemma body_loop_returns:
  "chunked L seen (up_buf u) (up_chunks u) \<Longrightarrow> \<exists>r. body_loop L evs u = Some r"
proof (induction evs arbitrary: seen u)
  case (Cons e evs)
  obtain c ev where e: "e = (c, ev)" by (cases e)
  from body_step_returns[OF Cons.prems, of c ev] obtain r where
    r: "body_step L c ev u = Some r" "\<And>v. r = Inr v \<Longrightarrow> \<exists>seen'. chunked L seen' (up_buf v) (up_chunks v)"
    by blast
  show ?case
  proof (cases r)
    case (Inr v)
    with r Cons.IH[of _ v] e show ?thesis by auto
  qed (use r e in simp)
qed simp

section \<open>Admission and hand-over\<close>

lemma new_blob_admit_Inr:
  assumes "new_blob_admit L now bid hdr st = (Inr u, st1)"
  obtains n vid b where "declared_len L hdr = Some n" "0 < n" "n \<le> MAX_BLOB_SIZE"
    "div_ceil n (chunk_size L) \<le> TOTAL_CHUNK_BUDGET"
    "magic_type_id L bid = Some vid" "status_map st vid = None"
    "try_acquire_many (div_ceil n (chunk_size L)) (admission_budget st) = Some b"
    "u = \<lparr>up_id = bid, up_admission = \<lparr>adm_id = vid, adm_committed = False\<rparr>,
       up_allowance = div_ceil n (chunk_size L), up_declared = n, up_num_chunks = div_ceil n (chunk_size L),
       up_buf = [], up_chunks = [], up_received = 0\<rparr>"
    "st1 = st\<lparr>status_map := (status_map st)(vid \<mapsto> [pending_at now]), admission_budget := b\<rparr>"
  using assms
  by (auto simp: new_blob_admit_def admission_new_def Let_def TOTAL_CHUNK_BUDGET_def
      split: option.splits if_splits)

lemma new_blob_admit_ok:
  assumes "declared_len L hdr = Some n" "0 < n" "n \<le> MAX_BLOB_SIZE"
    and "div_ceil n (chunk_size L) \<le> TOTAL_CHUNK_BUDGET"
    and "magic_type_id L bid = Some vid" "status_map st vid = None"
    and "try_acquire_many (div_ceil n (chunk_size L)) (admission_budget st) = Some b"
  shows "new_blob_admit L now bid hdr st =
    (Inr \<lparr>up_id = bid, up_admission = \<lparr>adm_id = vid, adm_committed = False\<rparr>,
       up_allowance = div_ceil n (chunk_size L), up_declared = n, up_num_chunks = div_ceil n (chunk_size L),
       up_buf = [], up_chunks = [], up_received = 0\<rparr>,
     st\<lparr>status_map := (status_map st)(vid \<mapsto> [pending_at now]), admission_budget := b\<rparr>)"
  using assms by (simp add: new_blob_admit_def admission_new_def TOTAL_CHUNK_BUDGET_def Let_def)

lemma admitted_upload_inv:
  "new_blob_admit L now bid hdr st = (Inr u, st1) \<Longrightarrow> 0 < chunk_size L \<Longrightarrow> upload_inv L [] u"
  by (elim new_blob_admit_Inr) (simp add: upload_inv_def chunked_start)

text \<open>The last step turns the loop's invariant into the pieces of the whole body.\<close>

lemma new_blob_finish_ok:
  assumes "upload_inv L seen u" and "length seen = up_declared u"
  shows "new_blob_finish L True u =
    (case merkle_root L (List.map (blake3 L) (pieces (chunk_size L) seen)) of
       None \<Rightarrow> Inl INTERNAL_SERVER_ERROR
     | Some root \<Rightarrow> Inr \<lparr>ab_id = up_id u, ab_root_hash = root,
         ab_merkle_tree = List.map (blake3 L) (pieces (chunk_size L) seen),
         ab_chunks = List.map (hashed L) (pieces (chunk_size L) seen), ab_allowance = up_allowance u\<rparr>)"
proof -
  have "List.map (hashed L) (pieces (chunk_size L) seen) =
      up_chunks u @ (if up_buf u = [] then [] else [hashed L (up_buf u)])"
    using assms(1) chunked_pieces[of L seen "up_buf u" "up_chunks u"] by (simp add: upload_inv_def)
  moreover from this have "List.map (blake3 L) (pieces (chunk_size L) seen) =
      List.map fst (up_chunks u @ (if up_buf u = [] then [] else [hashed L (up_buf u)]))"
    by (metis (no_types, lifting) fst_conv hashed_def list.map_comp comp_apply map_eq_conv)
  ultimately show ?thesis using assms
    by (cases "up_buf u = []")
      (simp_all add: new_blob_finish_def upload_inv_def hash_chunk_def hashed_def Let_def
        split: option.splits)
qed

lemma new_blob_finish_Inr:
  assumes "new_blob_finish L c u = Inr blob" and "upload_inv L seen u"
  shows "length seen = up_declared u \<and>
    ab_id blob = up_id u \<and> ab_allowance blob = up_allowance u \<and>
    ab_chunks blob = List.map (hashed L) (pieces (chunk_size L) seen) \<and>
    ab_merkle_tree blob = List.map fst (ab_chunks blob) \<and>
    merkle_root L (ab_merkle_tree blob) = Some (ab_root_hash blob)"
proof -
  have "up_chunks u @ (if up_buf u = [] then [] else [hashed L (up_buf u)]) =
      List.map (hashed L) (pieces (chunk_size L) seen)"
    using assms(2) chunked_pieces[of L seen "up_buf u" "up_chunks u"] by (simp add: upload_inv_def)
  then show ?thesis using assms
    by (auto simp: new_blob_finish_def upload_inv_def hash_chunk_def hashed_def Let_def
        split: if_splits option.splits)
qed

lemma admission_drop_committed [simp]: "admission_drop (admission_commit a) st = st"
  by (simp add: admission_drop_def admission_commit_def)

text \<open>Inversion of an accepted request.\<close>

lemma new_blob_Inr:
  assumes "new_blob L now bid hdr body c st ch = Some (Inr res, st', ch')"
  obtains u v blob where "new_blob_admit L now bid hdr st = (Inr u, st')" "body_loop L body u = Some (Inr v)"
    "new_blob_finish L c v = Inr blob" "chan_send (NewBlob blob) ch = Sent ch'" "res = (CREATED, bid)"
proof -
  obtain u st1 where u: "new_blob_admit L now bid hdr st = (Inr u, st1)"
    using assms by (auto simp: new_blob_def split: prod.splits sum.splits)
  obtain v where v: "body_loop L body u = Some (Inr v)"
    using assms u by (auto simp: new_blob_def split: option.splits sum.splits)
  obtain blob where blob: "new_blob_finish L c v = Inr blob"
    using assms u v by (auto simp: new_blob_def split: sum.splits)
  have "up_id v = bid"
    using u body_loop_same_request[OF v] by (auto simp: same_request_def elim: new_blob_admit_Inr)
  then show thesis using that[of u v blob] assms u v blob
    by (auto simp: new_blob_def new_blob_send_def split: sent.splits)
qed

lemma new_blob_Inl:
  assumes "new_blob L now bid hdr body c st ch = Some (Inl code, st', ch')"
  shows "st' = st \<and> ch' = ch"
proof (cases "new_blob_admit L now bid hdr st")
  case (Pair x st1)
  show ?thesis
  proof (cases x)
    case (Inl e)
    then show ?thesis using assms Pair upload.acquire_failed[of L now bid hdr st] by (simp add: new_blob_def)
  next
    case (Inr u)
    have undo: "upload_drop u st1 = st" using upload.drop_acquired Pair Inr by blast
    have undo': "upload_drop v st1 = st" if "body_loop L body u = Some (Inr v)" for v
      using undo upload_drop_same_request[OF body_loop_same_request[OF that]] by simp
    show ?thesis using assms Pair Inr undo undo'
      by (auto simp: new_blob_def new_blob_send_def split: option.splits sum.splits sent.splits)
  qed
qed

section \<open>The status table\<close>

text \<open>Every id in the table has a history, and a history starts with \<open>Pending\<close>.\<close>

definition status_wf :: "bridge_state \<Rightarrow> bool" where
  "status_wf st \<longleftrightarrow> (\<forall>i l. status_map st i = Some l \<longrightarrow> l \<noteq> [] \<and> ts_status (hd l) = Pending)"

lemma status_wf_new [simp]: "status_wf bridge_state_new"
  by (simp add: status_wf_def bridge_state_new_def)

lemma status_wf_map: "status_map st = status_map st' \<Longrightarrow> status_wf st = status_wf st'"
  by (simp add: status_wf_def)

lemma status_wf_insert: "status_wf st \<Longrightarrow> status_wf (st\<lparr>status_map := (status_map st)(i \<mapsto> [pending_at now])\<rparr>)"
  by (simp add: status_wf_def pending_at_def)

lemma status_wf_remove: "status_wf st \<Longrightarrow> status_wf (admission_drop a st)"
  by (simp add: status_wf_def admission_drop_def)

lemma status_wf_upload_drop: "status_wf st \<Longrightarrow> status_wf (upload_drop u st)"
  unfolding upload_drop_def by (rule status_wf_remove) (simp add: status_wf_def)

lemma status_wf_admit: "status_wf st \<Longrightarrow> new_blob_admit L now bid hdr st = (r, st') \<Longrightarrow> status_wf st'"
proof (cases r)
  case (Inr u)
  assume wf: "status_wf st" and "new_blob_admit L now bid hdr st = (r, st')"
  then have "new_blob_admit L now bid hdr st = (Inr u, st')" using Inr by simp
  then obtain vid b where
    "st' = st\<lparr>status_map := (status_map st)(vid \<mapsto> [pending_at now]), admission_budget := b\<rparr>"
    by (elim new_blob_admit_Inr)
  with wf show ?thesis by (simp add: status_wf_def pending_at_def)
qed (auto dest: upload.acquire_failed)

lemma status_wf_get_blob_entry:
  "status_wf st \<Longrightarrow> get_blob_entry L now bid st = (r, st') \<Longrightarrow> status_wf st' \<and> r \<noteq> None"
proof -
  assume wf: "status_wf st" and run: "get_blob_entry L now bid st = (r, st')"
  have "last_status l \<noteq> None" if "status_map st i = Some l" for i l
    using wf that by (auto simp: status_wf_def last_status_def)
  then have "r \<noteq> None" using run by (auto simp: get_blob_entry_def split: option.splits)
  moreover have "status_wf st'"
    using wf run by (auto simp: get_blob_entry_def split: option.splits intro: status_wf_insert)
  ultimately show ?thesis by simp
qed

lemma status_wf_bridge_message: "status_wf st \<Longrightarrow> status_wf (bridge_message now m st)"
  by (cases m) (auto simp: bridge_message_def status_wf_def hd_append split: option.splits)

lemma status_wf_get_status: "status_wf st \<Longrightarrow> get_status st bid \<noteq> None"
  by (auto simp: get_status_def status_wf_def last_status_def split: option.splits)

section \<open>A sample request for the witnesses\<close>

definition sample_header :: "bytes option" where
  "sample_header = Some [53]"

definition sample_channel :: "to_pipeline channel" where
  "sample_channel = channel_new (Some 16)"

definition sample_frames :: "bytes list" where
  "sample_frames = [[1, 2, 3], [4, 5]]"

lemma sample_declared [simp]: "declared_len sample_lib sample_header = Some 5"
  by (simp add: declared_len_def sample_header_def sample_lib_def parse_usize_def digit_value_def
      char_of_def bit_0)

lemma sample_channel_simps [simp]:
  "queued sample_channel = []" "rx_alive sample_channel" "has_room sample_channel"
  by (simp_all add: sample_channel_def channel_new_def has_room_def)

lemma sample_lib_simps [simp]:
  "chunk_size sample_lib = 4" "magic_type_id sample_lib = Some"
  "merkle_root sample_lib (h # hs) = Some h"
  by (simp_all add: sample_lib_def)

lemma sample_bridge_simps [simp]:
  "status_map bridge_state_new = Map.empty" "admission_budget bridge_state_new = semaphore_new 1536"
  by (simp_all add: bridge_state_new_def TOTAL_CHUNK_BUDGET_def)

lemma sample_acquire [simp]:
  "n \<le> m \<Longrightarrow> try_acquire_many n (semaphore_new m) = Some (semaphore_new (m - n))"
  by (simp add: try_acquire_many_def semaphore_new_def)

text \<open>A library whose canonical form of an id differs from the id.\<close>

definition shouting_lib :: lib where
  "shouting_lib = sample_lib\<lparr>magic_type_id := \<lambda>_. Some ''blob_a''\<rparr>"

lemma shouting_lib_simps [simp]:
  "chunk_size shouting_lib = 4" "magic_type_id shouting_lib i = Some ''blob_a''"
  "declared_len shouting_lib sample_header = Some 5" "blake3 shouting_lib = blake3 sample_lib"
  "merkle_root shouting_lib (h # hs) = Some h"
  using sample_declared by (simp_all add: shouting_lib_def sample_lib_def declared_len_def)

section \<open>Properties\<close>

text \<open>C8: An upload is accepted, independently of how its body is cut into frames. For a declared
  length within the limits, a valid unused id, enough budget and an open channel with room,
  \<open>new_blob\<close> answers 201, records \<open>Pending\<close>, takes one permit per chunk and hands over the
  pieces of the whole body with their hashes, the leaves and the Merkle root.\<close>

theorem new_blob_accepts:
  assumes "0 < chunk_size L" and "declared_len L hdr = Some (length (concat frames))"
    and "concat frames \<noteq> []" "length (concat frames) \<le> MAX_BLOB_SIZE"
    and "div_ceil (length (concat frames)) (chunk_size L) \<le> TOTAL_CHUNK_BUDGET"
    and "magic_type_id L bid = Some vid" "status_map st vid = None"
    and "try_acquire_many (div_ceil (length (concat frames)) (chunk_size L)) (admission_budget st) = Some b"
    and "merkle_root L (List.map (blake3 L) (pieces (chunk_size L) (concat frames))) = Some root"
    and "rx_alive ch" "has_room ch"
  shows "new_blob L now bid hdr (List.map (\<lambda>d. (True, Frame d)) frames) True st ch =
    Some (Inr (CREATED, bid),
      st\<lparr>status_map := (status_map st)(vid \<mapsto> [pending_at now]), admission_budget := b\<rparr>,
      ch\<lparr>queued := queued ch @ [NewBlob \<lparr>ab_id = bid, ab_root_hash = root,
         ab_merkle_tree = List.map (blake3 L) (pieces (chunk_size L) (concat frames)),
         ab_chunks = List.map (\<lambda>c. (blake3 L c, c)) (pieces (chunk_size L) (concat frames)),
         ab_allowance = length (pieces (chunk_size L) (concat frames))\<rparr>]\<rparr>)"
proof -
  let ?n = "length (concat frames)"
  let ?u = "\<lparr>up_id = bid, up_admission = \<lparr>adm_id = vid, adm_committed = False\<rparr>,
       up_allowance = div_ceil ?n (chunk_size L), up_declared = ?n, up_num_chunks = div_ceil ?n (chunk_size L),
       up_buf = [], up_chunks = [], up_received = 0\<rparr>"
  have admit: "new_blob_admit L now bid hdr st =
      (Inr ?u, st\<lparr>status_map := (status_map st)(vid \<mapsto> [pending_at now]), admission_budget := b\<rparr>)"
    using assms by (intro new_blob_admit_ok) auto
  have "upload_inv L [] ?u" using admit assms(1) by (rule admitted_upload_inv)
  from body_loop_ok[OF this, of frames] obtain v where
    v: "body_loop L (List.map (\<lambda>d. (True, Frame d)) frames) ?u = Some (Inr v)"
      "upload_inv L (concat frames) v" "same_request ?u v" by auto
  have hashed: "List.map (hashed L) = List.map (\<lambda>c. (blake3 L c, c))" by (simp add: hashed_def fun_eq_iff)
  have allow: "up_allowance v = length (pieces (chunk_size L) (concat frames))"
    unfolding length_pieces[OF assms(1)] using v(3) by (auto simp: same_request_def)
  have "new_blob_finish L True v = Inr \<lparr>ab_id = bid, ab_root_hash = root,
         ab_merkle_tree = List.map (blake3 L) (pieces (chunk_size L) (concat frames)),
         ab_chunks = List.map (\<lambda>c. (blake3 L c, c)) (pieces (chunk_size L) (concat frames)),
         ab_allowance = length (pieces (chunk_size L) (concat frames))\<rparr>"
    using new_blob_finish_ok[OF v(2)] v(3) assms(9)
    by (simp add: same_request_def hashed allow)
  then show ?thesis
    using admit v assms by (simp add: new_blob_def new_blob_send_def chan_send_def same_request_def)
qed

theorem new_blob_accepts_witness:
  "new_blob sample_lib (Instant 7) ''blob_a'' sample_header
     (List.map (\<lambda>d. (True, Frame d)) sample_frames) True bridge_state_new sample_channel =
   Some (Inr (CREATED, ''blob_a''),
     bridge_state_new\<lparr>status_map := [''blob_a'' \<mapsto> [pending_at (Instant 7)]],
       admission_budget := semaphore_new 1534\<rparr>,
     sample_channel\<lparr>queued := [NewBlob \<lparr>ab_id = ''blob_a'', ab_root_hash = replicate 32 10,
       ab_merkle_tree = [replicate 32 10, replicate 32 5],
       ab_chunks = [(replicate 32 10, [1, 2, 3, 4]), (replicate 32 5, [5])], ab_allowance = 2\<rparr>]\<rparr>)"
proof -
  have p: "pieces 4 [1, 2, 3, 4, 5 :: u8] = [[1, 2, 3, 4], [5]]"
    by (simp add: pieces.simps)
  have h: "blake3 sample_lib [1, 2, 3, 4] = replicate 32 10" "blake3 sample_lib [5] = replicate 32 5"
    by (simp_all add: sample_lib_def)
  show ?thesis
    using new_blob_accepts[of sample_lib sample_header sample_frames "''blob_a''" "''blob_a''"
        bridge_state_new "semaphore_new 1534" "replicate 32 10" sample_channel "Instant 7"]
    by (simp add: sample_frames_def MAX_BLOB_SIZE_def TOTAL_CHUNK_BUDGET_def div_ceil_def p h
        del: replicate.simps)
qed

text \<open>C15: A rejected upload leaves no trace. Whatever the request, its body and the faults, if
  \<open>new_blob\<close> ends with an error, the budget, the status table and the channel are what they were.\<close>

theorem new_blob_rejected_no_trace:
  assumes "new_blob L now bid hdr body c st ch = Some (Inl code, st', ch')"
  shows "st' = st \<and> ch' = ch"
  using assms by (rule new_blob_Inl)

theorem new_blob_rejected_no_trace_witness:
  "new_blob sample_lib (Instant 7) ''blob_a'' sample_header [(True, Frame [1, 2]), (True, IdleTimeout)]
     True bridge_state_new sample_channel = Some (Inl REQUEST_TIMEOUT, bridge_state_new, sample_channel)"
proof -
  let ?run = "new_blob sample_lib (Instant 7) ''blob_a'' sample_header
     [(True, Frame [1, 2]), (True, IdleTimeout)] True bridge_state_new sample_channel"
  have "\<exists>st ch. ?run = Some (Inl REQUEST_TIMEOUT, st, ch)"
    by (simp add: new_blob_def new_blob_admit_def admission_new_def div_ceil_def MAX_BLOB_SIZE_def
        TOTAL_CHUNK_BUDGET_def Let_def body_step_def fill.simps)
  then show ?thesis using new_blob_rejected_no_trace by blast
qed

text \<open>C28: Every upload request is answered, for every sequence of body events, as long as chunks are
  not empty and the channel to the coordinator is closed or has room: the loops terminate.\<close>

theorem new_blob_answers:
  assumes "0 < chunk_size L" and "rx_alive ch \<longrightarrow> has_room ch"
  shows "\<exists>r st' ch'. new_blob L now bid hdr body c st ch = Some (r, st', ch')"
proof (cases "new_blob_admit L now bid hdr st")
  case (Pair x st1)
  show ?thesis
  proof (cases x)
    case (Inr u)
    have "chunked L [] (up_buf u) (up_chunks u)"
      using admitted_upload_inv[of L now bid hdr st u st1] Pair Inr assms(1) by (simp add: upload_inv_def)
    then obtain r where r: "body_loop L body u = Some r" using body_loop_returns by blast
    have "\<exists>r st' ch'. new_blob_send v blob s ch = Some (r, st', ch')" for v blob s
      using assms(2) by (cases "rx_alive ch") (auto simp: new_blob_send_def chan_send_def)
    then show ?thesis using Pair Inr r
      by (auto simp: new_blob_def split: sum.splits)
  qed (use Pair in \<open>simp add: new_blob_def\<close>)
qed

theorem new_blob_answers_witness:
  "\<exists>r st' ch'. new_blob sample_lib (Instant 7) ''blob_a'' sample_header [(False, Frame [1, 2, 3, 4, 5])]
     True bridge_state_new sample_channel = Some (r, st', ch')"
  by (rule new_blob_answers) simp_all

text \<open>C9: What an accepted upload hands over. For any body whose frames are allocations of the
  program, the chunks are the pieces of the received bytes, whose number is the declared length:
  at least one chunk and at most 1536, none empty and none larger than a chunk, each with its
  hash, at most 1 GiB together; the permits taken are the chunks handed over, the leaves are
  the chunk hashes and the root is theirs.\<close>

theorem new_blob_admitted_wf:
  assumes "new_blob L now bid hdr body c st ch = Some (Inr res, st', ch')"
    and "frames_fit body" and "0 < chunk_size L"
  shows "\<exists>blob. queued ch' = queued ch @ [NewBlob blob] \<and> ab_id blob = bid \<and>
    declared_len L hdr = Some (length (body_bytes body)) \<and> length (body_bytes body) \<le> MAX_BLOB_SIZE \<and>
    concat (List.map snd (ab_chunks blob)) = body_bytes body \<and>
    (\<forall>(h, d)\<in>set (ab_chunks blob). h = blake3 L d \<and> 0 < length d \<and> length d \<le> chunk_size L) \<and>
    1 \<le> length (ab_chunks blob) \<and> length (ab_chunks blob) \<le> TOTAL_CHUNK_BUDGET \<and>
    ab_allowance blob = length (ab_chunks blob) \<and>
    available_permits (admission_budget st) = available_permits (admission_budget st') + ab_allowance blob \<and>
    ab_merkle_tree blob = List.map fst (ab_chunks blob) \<and>
    merkle_root L (ab_merkle_tree blob) = Some (ab_root_hash blob)"
  using assms(1)
proof (cases rule: new_blob_Inr)
  case (1 u v blob)
  from admitted_upload_inv[OF 1(1) assms(3)] have "upload_inv L [] u" .
  from body_loop_Inr[OF this assms(2) 1(2)] have inv: "upload_inv L (body_bytes body) v" by simp
  note same = body_loop_same_request[OF 1(2)]
  note fin = new_blob_finish_Inr[OF 1(3) inv]
  from 1(1) obtain n b where adm: "declared_len L hdr = Some n" "0 < n" "n \<le> MAX_BLOB_SIZE"
    "div_ceil n (chunk_size L) \<le> TOTAL_CHUNK_BUDGET" "up_id u = bid" "up_declared u = n"
    "up_allowance u = div_ceil n (chunk_size L)" "admission_budget st' = b"
    "try_acquire_many (div_ceil n (chunk_size L)) (admission_budget st) = Some b"
    by (elim new_blob_admit_Inr) auto
  have n: "length (body_bytes body) = n" using fin same adm by (simp add: same_request_def)
  have len: "length (ab_chunks blob) = div_ceil n (chunk_size L)"
    using fin length_pieces[OF assms(3), of "body_bytes body"] n by simp
  have "0 < div_ceil n (chunk_size L)"
    using adm(2) assms(3) by (auto simp: div_ceil_def div_eq_0_iff)
  moreover have "\<forall>(h, d)\<in>set (ab_chunks blob). h = blake3 L d \<and> 0 < length d \<and> length d \<le> chunk_size L"
    using fin piece_length[OF assms(3)] by (auto simp: hashed_def)
  moreover have "concat (List.map snd (ab_chunks blob)) = body_bytes body"
    using fin concat_pieces[OF assms(3)] by (simp add: hashed_def comp_def)
  moreover have "ab_allowance blob = length (ab_chunks blob)" "ab_id blob = bid"
    using fin same adm len by (auto simp: same_request_def)
  ultimately show ?thesis
    using adm n len fin chan.put_contents[OF 1(4)] sem.acquire_Some[OF adm(9)]
    by (intro exI[of _ blob]) auto
qed

theorem new_blob_admitted_wf_witness:
  "\<exists>r st' ch' blob. new_blob sample_lib (Instant 7) ''blob_a'' sample_header
       [(True, Frame [1, 2, 3]), (True, Frame [4, 5])] True bridge_state_new sample_channel =
     Some (Inr r, st', ch') \<and> queued ch' = [NewBlob blob] \<and> ab_allowance blob = length (ab_chunks blob)"
proof -
  have "\<exists>r st' ch'. new_blob sample_lib (Instant 7) ''blob_a'' sample_header
       [(True, Frame [1, 2, 3]), (True, Frame [4, 5])] True bridge_state_new sample_channel =
     Some (Inr r, st', ch')"
    by (simp add: new_blob_def new_blob_admit_def admission_new_def div_ceil_def MAX_BLOB_SIZE_def
        TOTAL_CHUNK_BUDGET_def Let_def body_step_def fill.simps hash_chunk_def new_blob_finish_def
        new_blob_send_def chan_send_def)
  then obtain r st' ch' where run: "new_blob sample_lib (Instant 7) ''blob_a'' sample_header
       [(True, Frame [1, 2, 3]), (True, Frame [4, 5])] True bridge_state_new sample_channel =
     Some (Inr r, st', ch')" by blast
  from new_blob_admitted_wf[OF run] obtain blob where
    "queued ch' = [NewBlob blob]" "ab_allowance blob = length (ab_chunks blob)"
    by (auto simp: frames_fit_def)
  with run show ?thesis by blast
qed



text \<open>C40: A status update shows in the next status request for its id and changes no other
  answer; an update for an id without an entry changes nothing.\<close>

theorem get_status_after_update:
  "get_status (bridge_message now (UpdateStatus bid s) st) i =
     (if i = bid \<and> status_map st bid \<noteq> None then Some (OK, Some s) else get_status st i)"
  by (auto simp: get_status_def bridge_message_def last_status_def split: option.splits)

text \<open>C30: Asking for an unknown blob blocks its upload. \<open>get_blob\<close> leaves an entry behind, so a
  later upload under that id is never accepted in the state it leaves.\<close>

theorem get_blob_blocks_upload:
  assumes "get_blob L now bid st ch = Some (Inr res, st1, ch1)"
  shows "new_blob L later bid hdr body c st1 ch2 \<noteq> Some (Inr r, st3, ch3)"
proof
  assume "new_blob L later bid hdr body c st1 ch2 = Some (Inr r, st3, ch3)"
  then obtain u where "new_blob_admit L later bid hdr st1 = (Inr u, st3)" by (elim new_blob_Inr) blast
  then obtain vid where "magic_type_id L bid = Some vid" "status_map st1 vid = None"
    by (elim new_blob_admit_Inr) blast
  moreover have "\<exists>vid l. magic_type_id L bid = Some vid \<and> status_map st1 vid = Some l"
    using assms by (auto simp: get_blob_def get_blob_entry_def split: option.splits prod.splits sum.splits)
  ultimately show False by auto
qed

theorem get_blob_blocks_upload_witness:
  "\<exists>st ch. get_blob sample_lib (Instant 7) ''blob_a'' bridge_state_new sample_channel =
       Some (Inr (ACCEPTED, ''blob_a''), st, ch) \<and>
     (\<forall>r st' ch'. new_blob sample_lib (Instant 8) ''blob_a'' sample_header
       (List.map (\<lambda>d. (True, Frame d)) sample_frames) True st ch \<noteq> Some (Inr r, st', ch'))"
proof -
  have "\<exists>st ch. get_blob sample_lib (Instant 7) ''blob_a'' bridge_state_new sample_channel =
       Some (Inr (ACCEPTED, ''blob_a''), st, ch)"
    by (simp add: get_blob_def get_blob_entry_def get_blob_reply_def chan_send_def)
  then show ?thesis using get_blob_blocks_upload by blast
qed



end
