(* ===== verification/Protocol.thy ===== *)
theory Protocol
  imports Prelude
begin

text \<open>
  The messages between nodes, \<open>crates/peyk/src/protocol.rs\<close>, and between the swarm task and
  its consumer, \<open>crates/peyk/src/lib.rs\<close>.
\<close>

datatype request = StoragePermit | BlobMeta blob_id

datatype response =
    IssuedStoragePermit (valid_for: u64)
  | BlobMetaResponse blob_id hash "(hash \<times> peer_id) list"

datatype swarm_message = RequestStoragePermits "peer_id list"

text \<open>
  Request ids are numbers. The response channel of an inbound request is the capability to
  answer it; a handler that drops the message drops the channel.
\<close>

datatype handler_message =
    WouldStore peer_id
  | Request peer_id nat request
  | Response peer_id nat response

end
