(* ===== verification/Coordinator.thy ===== *)
theory Coordinator
  imports Bridge Protocol BlobTransfer
begin

text \<open>
  The coordinator of the client, \<open>bin/client/src/coordinator.rs\<close>: the pipeline of local blobs,
  the assignment of chunks to storage providers and the handler of every message the loop of
  \<open>coordinator::run\<close> receives.

  A handler takes the current time and the iteration orders of the hash maps it walks over and
  returns the new pipeline and what it emits, in order. The clones of the channel
  senders and of the stream control that \<open>Pipeline\<close> holds are constants of the loop and not part
  of the state.
\<close>

section \<open>State\<close>

definition CHUNK_UPLOAD_WINDOW :: nat where
  "CHUNK_UPLOAD_WINDOW = 30"

definition STORAGE_PROVIDER_DECAY :: nat where
  "STORAGE_PROVIDER_DECAY = 5 * 60"

datatype chunk_upload_status =
    ChunkPending
  | ChunkInflight peer_id
  | ChunkFinalized peer_id

datatype internal_message = UpdateChunkStatus hash chunk_upload_status instant

record chunk_status =
  cs_at :: instant
  cs_status :: chunk_upload_status

record chunk =
  ch_data :: bytes
  ch_status :: chunk_status

record local_blob =
  lb_id :: blob_id
  lb_root_hash :: hash
  lb_merkle_tree :: "hash list"
  lb_chunks :: "hash \<rightharpoonup> chunk"
  lb_allowance :: nat
  lb_created_at :: instant

record remote_blob =
  rb_root_hash :: hash
  rb_chunk_hashes :: "hash list"
  rb_chunks :: "hash \<rightharpoonup> bytes"

record pipeline =
  remote_blobs :: "blob_id \<rightharpoonup> remote_blob"
  pending_local_blobs :: "local_blob list"
  current_blob :: "local_blob option"
  storage_provider_hints :: "peer_id \<rightharpoonup> instant"
  storage_permits :: "peer_id \<rightharpoonup> instant"
  download_allowance :: semaphore
  upload_allowance :: semaphore

text \<open>A spawned upload task: what it sends to whom, and since when it holds its permit.\<close>

record upload_task =
  task_hash :: hash
  task_peer :: peer_id
  task_payload :: bytes
  task_started :: instant

text \<open>
  What a handler emits: messages to the swarm task and to the bridge, new tasks, and the
  permits of the admission budget that an archived blob gives back when it is dropped.
\<close>

datatype emission =
    ToSwarm swarm_message
  | ToBridge to_bridge
  | Spawn upload_task
  | DropAllowance nat

definition pipeline_new :: pipeline where
  "pipeline_new = \<lparr>remote_blobs = Map.empty, pending_local_blobs = [], current_blob = None,
     storage_provider_hints = Map.empty, storage_permits = Map.empty,
     download_allowance = semaphore_new 32, upload_allowance = semaphore_new 20\<rparr>"

section \<open>Blobs\<close>

definition add_local_blob :: "instant \<Rightarrow> admitted_blob \<Rightarrow> pipeline \<Rightarrow> pipeline" where
  "add_local_blob now blob pl =
     (let chunks_map = collect_map (List.map (\<lambda>(hash, data).
            (hash, \<lparr>ch_data = data, ch_status = \<lparr>cs_at = now, cs_status = ChunkPending\<rparr>\<rparr>)) (ab_chunks blob))
      in pl\<lparr>pending_local_blobs := pending_local_blobs pl @
           [\<lparr>lb_id = ab_id blob, lb_root_hash = ab_root_hash blob, lb_merkle_tree = ab_merkle_tree blob,
             lb_chunks = chunks_map, lb_allowance = ab_allowance blob, lb_created_at = now\<rparr>]\<rparr>)"

text \<open>\<open>None\<close> is the panic of \<open>take().unwrap()\<close> without a current blob.\<close>

definition archive_cur_blob :: "pipeline \<Rightarrow> (pipeline \<times> emission list) option" where
  "archive_cur_blob pl =
     (case current_blob pl of
        None \<Rightarrow> None
      | Some blob \<Rightarrow> Some (pl\<lparr>current_blob := None\<rparr>, [DropAllowance (lb_allowance blob)]))"

definition request_storage_permits :: "instant \<Rightarrow> peer_id list \<Rightarrow> pipeline \<Rightarrow> pipeline \<times> emission list" where
  "request_storage_permits now peer_order pl =
     (if keys_in peer_order (storage_provider_hints pl) = [] then (pl, [])
      else
        let pl' = pl\<lparr>storage_permits := retain (\<lambda>expires_at. expires_at > now) (storage_permits pl)\<rparr> in
        if keys_in peer_order (storage_permits pl') \<noteq> [] then (pl', [])
        else (pl', [ToSwarm (RequestStoragePermits (keys_in peer_order (storage_provider_hints pl')))]))"

definition begin_next_blob :: "instant \<Rightarrow> peer_id list \<Rightarrow> pipeline \<Rightarrow> pipeline \<times> emission list" where
  "begin_next_blob now peer_order pl =
     (if current_blob pl \<noteq> None then (pl, [])
      else
        case pending_local_blobs pl of
          [] \<Rightarrow> (pl\<lparr>current_blob := None\<rparr>, [])
        | blob # blobs \<Rightarrow>
            request_storage_permits now peer_order
              (pl\<lparr>current_blob := Some blob, pending_local_blobs := blobs\<rparr>))"

section \<open>Assigning chunks\<close>

definition is_eligible :: "instant \<Rightarrow> chunk \<Rightarrow> bool" where
  "is_eligible now c =
     (case cs_status (ch_status c) of
        ChunkPending \<Rightarrow> True
      | ChunkInflight _ \<Rightarrow> as_secs (duration_since now (cs_at (ch_status c))) > CHUNK_UPLOAD_WINDOW
      | ChunkFinalized _ \<Rightarrow> False)"

definition set_status :: "instant \<Rightarrow> chunk_upload_status \<Rightarrow> chunk \<Rightarrow> chunk" where
  "set_status now s c = c\<lparr>ch_status := \<lparr>cs_at = now, cs_status = s\<rparr>\<rparr>"

text \<open>
  The loop over the chosen chunks: a permit, the new status, a task, the next peer. It ends
  early when no permit can be had.
\<close>

fun assign_loop :: "instant \<Rightarrow> peer_id list \<Rightarrow> nat \<Rightarrow> hash list \<Rightarrow> semaphore \<Rightarrow> (hash \<rightharpoonup> chunk)
    \<Rightarrow> semaphore \<times> (hash \<rightharpoonup> chunk) \<times> upload_task list" where
  "assign_loop now peers peer_index [] allowance chunks = (allowance, chunks, [])"
| "assign_loop now peers peer_index (hash # hashes) allowance chunks =
     (case chunks hash of
        None \<Rightarrow> assign_loop now peers peer_index hashes allowance chunks
      | Some chunk \<Rightarrow>
          let peer = peers ! peer_index in
          (case try_acquire_many 1 allowance of
             None \<Rightarrow> (allowance, chunks, [])
           | Some allowance' \<Rightarrow>
               (case assign_loop now peers ((peer_index + 1) mod length peers) hashes allowance'
                   (chunks(hash \<mapsto> set_status now (ChunkInflight peer) chunk)) of
                  (allowance'', chunks'', tasks) \<Rightarrow>
                    (allowance'', chunks'',
                     \<lparr>task_hash = hash, task_peer = peer, task_payload = ch_data chunk,
                       task_started = now\<rparr> # tasks))))"

definition eligible_peers :: "instant \<Rightarrow> peer_id list \<Rightarrow> pipeline \<Rightarrow> peer_id list" where
  "eligible_peers now peer_order pl =
     filter (\<lambda>p. case storage_permits pl p of None \<Rightarrow> False | Some expires_at \<Rightarrow> expires_at > now) peer_order"

definition eligible_chunks :: "instant \<Rightarrow> hash list \<Rightarrow> (hash \<rightharpoonup> chunk) \<Rightarrow> hash list" where
  "eligible_chunks now chunk_order chunks =
     filter (\<lambda>h. case chunks h of None \<Rightarrow> False | Some c \<Rightarrow> is_eligible now c) chunk_order"

definition assign_chunks :: "instant \<Rightarrow> peer_id list \<Rightarrow> hash list \<Rightarrow> pipeline \<Rightarrow> pipeline \<times> emission list" where
  "assign_chunks now peer_order chunk_order pl =
     (let num_available_permits = available_permits (upload_allowance pl) in
      if num_available_permits = 0 then (pl, [])
      else
        case current_blob pl of
          None \<Rightarrow> (pl, [])
        | Some blob \<Rightarrow>
            let peers = eligible_peers now peer_order pl in
            if peers = [] then (pl, [])
            else
              (case assign_loop now peers 0
                  (take num_available_permits (eligible_chunks now chunk_order (lb_chunks blob)))
                  (upload_allowance pl) (lb_chunks blob) of
                 (allowance, chunks, tasks) \<Rightarrow>
                   (pl\<lparr>upload_allowance := allowance, current_blob := Some (blob\<lparr>lb_chunks := chunks\<rparr>)\<rparr>,
                    List.map Spawn tasks)))"

section \<open>Upload tasks\<close>

datatype upload_outcome = UploadOk | UploadErr | UploadTimeout

text \<open>\<open>timeout(..., blob_transfer::push(...))\<close>: the result of the push unless the window ran out.\<close>

definition upload_outcome_of :: "(xfer_error + unit) option \<Rightarrow> upload_outcome" where
  "upload_outcome_of r =
     (case r of None \<Rightarrow> UploadTimeout | Some (Inr _) \<Rightarrow> UploadOk | Some (Inl _) \<Rightarrow> UploadErr)"

text \<open>The end of a task: it drops its permit and reports, except after a timeout.\<close>

definition upload_report :: "instant \<Rightarrow> upload_outcome \<Rightarrow> upload_task \<Rightarrow> internal_message option" where
  "upload_report now outcome t =
     (case outcome of
        UploadOk \<Rightarrow> Some (UpdateChunkStatus (task_hash t) (ChunkFinalized (task_peer t)) now)
      | UploadErr \<Rightarrow> Some (UpdateChunkStatus (task_hash t) ChunkPending now)
      | UploadTimeout \<Rightarrow> None)"

definition upload_release :: "pipeline \<Rightarrow> pipeline" where
  "upload_release pl = pl\<lparr>upload_allowance := release_many 1 (upload_allowance pl)\<rparr>"

section \<open>The handlers of the loop\<close>

definition on_timer_stale :: "instant \<Rightarrow> peer_id list \<Rightarrow> pipeline \<Rightarrow> pipeline \<times> emission list" where
  "on_timer_stale now peer_order pl =
     (let pl' = pl\<lparr>storage_provider_hints := retain (\<lambda>created_at.
            as_secs (duration_since now created_at) < STORAGE_PROVIDER_DECAY) (storage_provider_hints pl)\<rparr>
      in if current_blob pl' \<noteq> None then request_storage_permits now peer_order pl' else (pl', []))"

definition on_timer_assign :: "instant \<Rightarrow> peer_id list \<Rightarrow> hash list \<Rightarrow> pipeline \<Rightarrow> pipeline \<times> emission list" where
  "on_timer_assign now peer_order chunk_order pl = assign_chunks now peer_order chunk_order pl"

definition on_handler_message :: "lib \<Rightarrow> instant \<Rightarrow> peer_id list \<Rightarrow> hash list \<Rightarrow> handler_message
    \<Rightarrow> pipeline \<Rightarrow> pipeline \<times> emission list" where
  "on_handler_message L now peer_order chunk_order msg pl =
     (case msg of
        WouldStore peer \<Rightarrow>
          (pl\<lparr>storage_provider_hints := (storage_provider_hints pl)(peer \<mapsto> now)\<rparr>, [])
      | Request _ _ _ \<Rightarrow> (pl, [])
      | Response peer _ response \<Rightarrow>
          (case response of
             IssuedStoragePermit secs \<Rightarrow>
               let expires_at = (case checked_add L now (from_secs (unat secs)) of
                     None \<Rightarrow> now | Some t \<Rightarrow> t)
               in assign_chunks now peer_order chunk_order
                    (pl\<lparr>storage_permits := (storage_permits pl)(peer \<mapsto> expires_at)\<rparr>)
           | BlobMetaResponse _ _ _ \<Rightarrow> (pl, [])))"

definition on_admission :: "instant \<Rightarrow> peer_id list \<Rightarrow> to_pipeline \<Rightarrow> pipeline \<Rightarrow> pipeline \<times> emission list" where
  "on_admission now peer_order msg pl =
     (case msg of
        GetBlob bid \<Rightarrow>
          (pl\<lparr>remote_blobs := (remote_blobs pl)(bid \<mapsto>
             \<lparr>rb_root_hash = replicate 32 0, rb_chunk_hashes = [], rb_chunks = Map.empty\<rparr>)\<rparr>, [])
      | NewBlob blob \<Rightarrow> begin_next_blob now peer_order (add_local_blob now blob pl))"

text \<open>Whether every chunk is finalized; \<open>values().all(..)\<close> in the code.\<close>

definition all_finalized :: "hash list \<Rightarrow> (hash \<rightharpoonup> chunk) \<Rightarrow> bool" where
  "all_finalized chunk_order chunks \<longleftrightarrow>
     list_all (\<lambda>h. case chunks h of None \<Rightarrow> True
       | Some c \<Rightarrow> (case cs_status (ch_status c) of ChunkFinalized _ \<Rightarrow> True | _ \<Rightarrow> False)) chunk_order"

text \<open>
  The handler of an upload's report. \<open>None\<close> would be the panic of \<open>archive_cur_blob\<close>. The bridge
  channel's error is only logged.
\<close>

definition on_internal :: "instant \<Rightarrow> peer_id list \<Rightarrow> peer_id list \<Rightarrow> hash list \<Rightarrow> internal_message
    \<Rightarrow> pipeline \<Rightarrow> (pipeline \<times> emission list) option" where
  "on_internal now hint_order peer_order chunk_order msg pl =
     (case msg of UpdateChunkStatus hash status _ \<Rightarrow>
        (case current_blob pl of
           None \<Rightarrow> Some (pl, [])
         | Some blob \<Rightarrow>
             (case lb_chunks blob hash of
                None \<Rightarrow> Some (pl, [])
              | Some chunk \<Rightarrow>
                  let blob' = blob\<lparr>lb_chunks := (lb_chunks blob)(hash \<mapsto> set_status now status chunk)\<rparr>;
                      pl' = pl\<lparr>current_blob := Some blob'\<rparr>
                  in (case status of
                        ChunkPending \<Rightarrow> Some (pl', [])
                      | ChunkInflight _ \<Rightarrow> Some (pl', [])
                      | ChunkFinalized _ \<Rightarrow>
                          if all_finalized chunk_order (lb_chunks blob') then
                            (case archive_cur_blob pl' of
                               None \<Rightarrow> None
                             | Some (pl1, dropped) \<Rightarrow>
                                 let (pl2, begun) = begin_next_blob now hint_order pl1;
                                     (pl3, spawned) = assign_chunks now peer_order chunk_order pl2
                                 in Some (pl3, ToBridge (UpdateStatus (lb_id blob') Finalized) #
                                      dropped @ begun @ spawned))
                          else Some (assign_chunks now peer_order chunk_order pl')))))"

text \<open>
  Pushed blobs are received and dropped; a pull request is dropped without an answer, which the
  pull handler treats as a missing blob; transfer events are only logged.
\<close>

definition on_push :: "incoming_push \<Rightarrow> pipeline \<Rightarrow> pipeline \<times> emission list" where
  "on_push p pl = (pl, [])"

definition on_pull :: "incoming_pull \<Rightarrow> pipeline \<Rightarrow> (pipeline \<times> emission list) \<times> bytes option option" where
  "on_pull p pl = ((pl, []), None)"

definition on_transfer_event :: "transfer_event \<Rightarrow> pipeline \<Rightarrow> pipeline \<times> emission list" where
  "on_transfer_event e pl = (pl, [])"

end
