(* ===== verification/CoordinatorCorrect.thy ===== *)
theory CoordinatorCorrect
  imports Coordinator
begin

text \<open>
  Correctness of the pipeline's operations, one handler at a time: what an assignment of chunks
  does, what each handler keeps of the permits, of the queue of blobs and of the evidence
  behind a finalized chunk.
\<close>

section \<open>The assignment loop\<close>

definition task_for :: "instant \<Rightarrow> peer_id list \<Rightarrow> (hash \<rightharpoonup> chunk) \<Rightarrow> nat \<times> hash \<Rightarrow> upload_task" where
  "task_for now peers chunks kh =
     \<lparr>task_hash = snd kh, task_peer = peers ! (fst kh mod length peers),
      task_payload = ch_data (the (chunks (snd kh))), task_started = now\<rparr>"

definition start_task :: "upload_task \<Rightarrow> (hash \<rightharpoonup> chunk) \<Rightarrow> (hash \<rightharpoonup> chunk)" where
  "start_task t chunks = chunks(task_hash t \<mapsto>
     set_status (task_started t) (ChunkInflight (task_peer t)) (the (chunks (task_hash t))))"

lemma task_for_simps [simp]:
  "task_hash (task_for now peers chunks kh) = snd kh"
  "task_peer (task_for now peers chunks kh) = peers ! (fst kh mod length peers)"
  "task_started (task_for now peers chunks kh) = now"
  "task_payload (task_for now peers chunks kh) = ch_data (the (chunks (snd kh)))"
  by (simp_all add: task_for_def)

lemma set_status_simps [simp]:
  "ch_data (set_status now s c) = ch_data c"
  "cs_status (ch_status (set_status now s c)) = s" "cs_at (ch_status (set_status now s c)) = now"
  by (simp_all add: set_status_def)

lemma assign_loop_spec:
  assumes "distinct hs" and "set hs \<subseteq> dom chunks" and "length hs \<le> available_permits allowance"
    and "\<not> sem_closed allowance"
  shows "assign_loop now peers (k mod length peers) hs allowance chunks =
    (allowance\<lparr>permits := permits allowance - length hs\<rparr>,
     fold start_task (List.map (task_for now peers chunks) (enumerate k hs)) chunks,
     List.map (task_for now peers chunks) (enumerate k hs))"
  using assms
proof (induction hs arbitrary: k allowance chunks)
  case (Cons h hs)
  then obtain c where c: "chunks h = Some c" by auto
  let ?t = "task_for now peers chunks (k, h)"
  let ?chunks = "start_task ?t chunks"
  have chunks: "?chunks = chunks(h \<mapsto> set_status now (ChunkInflight (peers ! (k mod length peers))) c)"
    using c by (simp add: start_task_def)
  have acq: "try_acquire_many 1 allowance = Some (allowance\<lparr>permits := permits allowance - 1\<rparr>)"
    using Cons.prems(3,4) by (simp add: try_acquire_many_def available_permits_def)
  have same: "List.map (task_for now peers ?chunks) (enumerate (Suc k) hs) =
      List.map (task_for now peers chunks) (enumerate (Suc k) hs)"
    using Cons.prems(1) by (auto simp: task_for_def start_task_def in_set_enumerate_eq dest: nth_mem)
  have prems: "distinct hs" "set hs \<subseteq> dom ?chunks"
    "length hs \<le> available_permits (allowance\<lparr>permits := permits allowance - 1\<rparr>)"
    "\<not> sem_closed (allowance\<lparr>permits := permits allowance - 1\<rparr>)"
    using Cons.prems by (auto simp: available_permits_def start_task_def)
  have "assign_loop now peers (Suc k mod length peers) hs (allowance\<lparr>permits := permits allowance - 1\<rparr>) ?chunks =
      (allowance\<lparr>permits := permits allowance - 1 - length hs\<rparr>,
       fold start_task (List.map (task_for now peers chunks) (enumerate (Suc k) hs)) ?chunks,
       List.map (task_for now peers chunks) (enumerate (Suc k) hs))"
    using Cons.IH[OF prems, of "Suc k"] by (simp add: same)
  note IH = this[unfolded chunks]
  have t: "\<lparr>task_hash = h, task_peer = peers ! (k mod length peers), task_payload = ch_data c,
      task_started = now\<rparr> = ?t"
    using c by (simp add: task_for_def)
  show ?case
    using c acq IH chunks t by (simp add: Let_def mod_Suc_eq)
qed simp

lemma fold_start_task_lookup:
  assumes "distinct (List.map task_hash ts)"
  shows "fold start_task ts chunks h =
    (case find (\<lambda>t. task_hash t = h) ts of
       None \<Rightarrow> chunks h
     | Some t \<Rightarrow> Some (set_status (task_started t) (ChunkInflight (task_peer t)) (the (chunks h))))"
  using assms
proof (induction ts arbitrary: chunks)
  case (Cons t ts)
  have "find (\<lambda>u. task_hash u = task_hash t) ts = None"
    using Cons.prems by (simp add: find_None_iff) (metis imageI)
  then show ?case using Cons by (auto simp: start_task_def)
qed simp

text \<open>Starting tasks for known chunks keeps the keys and the data of the chunks.\<close>

lemma start_tasks_keep:
  assumes "task_hash ` set ts \<subseteq> dom chunks"
  shows "dom (fold start_task ts chunks) = dom chunks \<and>
    (\<forall>h c. fold start_task ts chunks h = Some c \<longrightarrow>
       (\<exists>c0. chunks h = Some c0 \<and> ch_data c = ch_data c0 \<and>
         (c = c0 \<or> (\<exists>p. cs_status (ch_status c) = ChunkInflight p))))"
  using assms
proof (induction ts arbitrary: chunks)
  case (Cons t ts)
  then obtain c where c: "chunks (task_hash t) = Some c" by auto
  have "task_hash ` set ts \<subseteq> dom (start_task t chunks)" using Cons.prems by (auto simp: start_task_def)
  note IH = Cons.IH[OF this]
  have dom: "dom (start_task t chunks) = dom chunks" using c by (auto simp: start_task_def)
  have "\<exists>c0. chunks h = Some c0 \<and> ch_data d = ch_data c0 \<and>
      (d = c0 \<or> (\<exists>p. cs_status (ch_status d) = ChunkInflight p))"
    if "fold start_task (t # ts) chunks h = Some d" for h d
  proof -
    from that IH obtain c1 where c1: "start_task t chunks h = Some c1" "ch_data d = ch_data c1"
      "d = c1 \<or> (\<exists>p. cs_status (ch_status d) = ChunkInflight p)" by fastforce
    then show ?thesis using c by (auto simp: start_task_def split: if_splits)
  qed
  then show ?case using IH dom by simp
qed simp

section \<open>What an assignment does\<close>

definition spawned :: "emission list \<Rightarrow> upload_task list" where
  "spawned es = List.map_filter (\<lambda>e. case e of Spawn t \<Rightarrow> Some t | _ \<Rightarrow> None) es"

definition reported :: "emission list \<Rightarrow> blob_id list" where
  "reported es = List.map_filter (\<lambda>e. case e of ToBridge (UpdateStatus i Finalized) \<Rightarrow> Some i | _ \<Rightarrow> None) es"

definition dropped :: "emission list \<Rightarrow> nat list" where
  "dropped es = List.map_filter (\<lambda>e. case e of DropAllowance n \<Rightarrow> Some n | _ \<Rightarrow> None) es"

lemmas emission_defs = spawned_def reported_def dropped_def

lemma emission_append [simp]:
  "spawned (xs @ ys) = spawned xs @ spawned ys"
  "reported (xs @ ys) = reported xs @ reported ys"
  "dropped (xs @ ys) = dropped xs @ dropped ys"
  by (simp_all add: emission_defs map_filter_def)

lemma emission_simps [simp]:
  "spawned [] = []" "reported [] = []" "dropped [] = []"
  "spawned (Spawn t # es) = t # spawned es" "spawned (ToSwarm m # es) = spawned es"
  "spawned (ToBridge b # es) = spawned es" "spawned (DropAllowance n # es) = spawned es"
  "reported (Spawn t # es) = reported es" "reported (ToSwarm m # es) = reported es"
  "reported (ToBridge (UpdateStatus i Finalized) # es) = i # reported es"
  "reported (DropAllowance n # es) = reported es"
  "dropped (Spawn t # es) = dropped es" "dropped (ToSwarm m # es) = dropped es"
  "dropped (ToBridge b # es) = dropped es" "dropped (DropAllowance n # es) = n # dropped es"
  by (simp_all add: emission_defs map_filter_def)

lemma emission_map_Spawn [simp]:
  "spawned (List.map Spawn ts) = ts" "reported (List.map Spawn ts) = []" "dropped (List.map Spawn ts) = []"
  by (induction ts) simp_all

lemma eligible_chunks_in: "set (eligible_chunks now co chunks) \<subseteq> dom chunks"
  by (auto simp: eligible_chunks_def split: option.splits)

text \<open>
  The chosen chunks and the tasks of one assignment: as many eligible chunks as there are
  permits, in the order of the map, with the peers in rotation.
\<close>

definition chosen_tasks :: "instant \<Rightarrow> peer_id list \<Rightarrow> hash list \<Rightarrow> pipeline \<Rightarrow> local_blob \<Rightarrow> upload_task list" where
  "chosen_tasks now po co pl blob =
     (if eligible_peers now po pl = [] then []
      else List.map (task_for now (eligible_peers now po pl) (lb_chunks blob))
        (enumerate 0 (take (available_permits (upload_allowance pl)) (eligible_chunks now co (lb_chunks blob)))))"

lemma length_chosen_tasks:
  "length (chosen_tasks now po co pl blob) \<le> available_permits (upload_allowance pl)"
  by (simp add: chosen_tasks_def)

lemma chosen_task_hashes:
  "eligible_peers now po pl \<noteq> [] \<Longrightarrow> List.map task_hash (chosen_tasks now po co pl blob) =
     take (available_permits (upload_allowance pl)) (eligible_chunks now co (lb_chunks blob))"
  by (simp add: chosen_tasks_def comp_def)

lemma assign_chunks_spec:
  assumes "current_blob pl = Some blob" and "distinct co" and "\<not> sem_closed (upload_allowance pl)"
  shows "assign_chunks now po co pl =
    (pl\<lparr>upload_allowance := (upload_allowance pl)\<lparr>permits := permits (upload_allowance pl) -
          length (chosen_tasks now po co pl blob)\<rparr>,
        current_blob := Some (blob\<lparr>lb_chunks := fold start_task (chosen_tasks now po co pl blob) (lb_chunks blob)\<rparr>)\<rparr>,
     List.map Spawn (chosen_tasks now po co pl blob))"
proof (cases "available_permits (upload_allowance pl) = 0 \<or> eligible_peers now po pl = []")
  case True
  then have "chosen_tasks now po co pl blob = []" by (auto simp: chosen_tasks_def)
  then show ?thesis using True assms(1) by (auto simp: assign_chunks_def Let_def)
next
  case False
  let ?hs = "take (available_permits (upload_allowance pl)) (eligible_chunks now co (lb_chunks blob))"
  have "distinct ?hs" using assms(2) by (simp add: eligible_chunks_def)
  moreover have "set ?hs \<subseteq> dom (lb_chunks blob)" using eligible_chunks_in set_take_subset by fast
  ultimately have "assign_loop now (eligible_peers now po pl) (0 mod length (eligible_peers now po pl)) ?hs
      (upload_allowance pl) (lb_chunks blob) =
      ((upload_allowance pl)\<lparr>permits := permits (upload_allowance pl) - length ?hs\<rparr>,
       fold start_task (chosen_tasks now po co pl blob) (lb_chunks blob), chosen_tasks now po co pl blob)"
    using assign_loop_spec[of ?hs "lb_chunks blob" "upload_allowance pl" now "eligible_peers now po pl" 0]
      False assms(3) by (simp add: chosen_tasks_def)
  moreover have "length ?hs = length (chosen_tasks now po co pl blob)"
    using False by (simp add: chosen_tasks_def)
  ultimately show ?thesis using False assms(1) by (simp add: assign_chunks_def Let_def)
qed

section \<open>What every handler keeps of the permits\<close>

text \<open>A handler turns upload permits into spawned tasks, one for one.\<close>

definition upload_balance :: "pipeline \<Rightarrow> pipeline \<times> emission list \<Rightarrow> bool" where
  "upload_balance pl r \<longleftrightarrow>
     (\<not> sem_closed (upload_allowance pl) \<longrightarrow>
        \<not> sem_closed (upload_allowance (fst r)) \<and>
        available_permits (upload_allowance (fst r)) + length (spawned (snd r)) =
          available_permits (upload_allowance pl))"

lemma upload_balance_same:
  "upload_allowance (fst r) = upload_allowance pl \<Longrightarrow> spawned (snd r) = [] \<Longrightarrow> upload_balance pl r"
  by (simp add: upload_balance_def)

lemma upload_balance_from:
  "upload_balance pl' r \<Longrightarrow> upload_allowance pl' = upload_allowance pl \<Longrightarrow> upload_balance pl r"
  by (simp add: upload_balance_def)

lemma upload_balance_assign: "distinct co \<Longrightarrow> upload_balance pl (assign_chunks now po co pl)"
proof (cases "current_blob pl")
  case None
  then show ?thesis by (auto simp: assign_chunks_def Let_def intro: upload_balance_same)
next
  case (Some blob)
  moreover assume "distinct co"
  ultimately show ?thesis using length_chosen_tasks[of now po co pl blob]
    by (auto simp: upload_balance_def assign_chunks_spec available_permits_def)
qed

lemma request_keeps [simp]:
  "upload_allowance (fst (request_storage_permits now po pl)) = upload_allowance pl"
  "current_blob (fst (request_storage_permits now po pl)) = current_blob pl"
  "pending_local_blobs (fst (request_storage_permits now po pl)) = pending_local_blobs pl"
  "storage_provider_hints (fst (request_storage_permits now po pl)) = storage_provider_hints pl"
  "spawned (snd (request_storage_permits now po pl)) = []"
  "reported (snd (request_storage_permits now po pl)) = []"
  "dropped (snd (request_storage_permits now po pl)) = []"
  by (simp_all add: request_storage_permits_def Let_def)

lemma begin_keeps [simp]:
  "upload_allowance (fst (begin_next_blob now po pl)) = upload_allowance pl"
  "spawned (snd (begin_next_blob now po pl)) = []"
  "reported (snd (begin_next_blob now po pl)) = []"
  "dropped (snd (begin_next_blob now po pl)) = []"
  by (auto simp: begin_next_blob_def split: list.splits)

lemma upload_balance_stale: "upload_balance pl (on_timer_stale now po pl)"
  by (rule upload_balance_same) (simp_all add: on_timer_stale_def Let_def)

lemma upload_balance_handler: "distinct co \<Longrightarrow> upload_balance pl (on_handler_message L now po co m pl)"
  by (cases m)
    (auto simp: on_handler_message_def Let_def split: response.splits
      intro: upload_balance_same upload_balance_from[OF upload_balance_assign])

lemma upload_balance_admission: "upload_balance pl (on_admission now po m pl)"
  by (rule upload_balance_same)
    (simp_all add: on_admission_def add_local_blob_def split: to_pipeline.splits)

section \<open>What every handler keeps of the blobs\<close>

definition blobs :: "pipeline \<Rightarrow> local_blob list" where
  "blobs pl = (case current_blob pl of None \<Rightarrow> [] | Some b \<Rightarrow> [b]) @ pending_local_blobs pl"

text \<open>A local blob of the pipeline stands for an admitted one.\<close>

definition represents :: "admitted_blob \<Rightarrow> local_blob \<Rightarrow> bool" where
  "represents a b \<longleftrightarrow> lb_id b = ab_id a \<and> lb_allowance b = ab_allowance a \<and>
     lb_root_hash b = ab_root_hash a \<and> dom (lb_chunks b) = fst ` set (ab_chunks a)"

text \<open>
  The evidence kept with a blob: every chunk has its hash, and a chunk is finalized only for
  an upload that \<open>acked\<close> records.
\<close>

definition blob_ok :: "lib \<Rightarrow> (hash \<times> peer_id \<times> bytes) set \<Rightarrow> local_blob \<Rightarrow> bool" where
  "blob_ok L acked b \<longleftrightarrow>
     (\<forall>h c. lb_chunks b h = Some c \<longrightarrow> blake3 L (ch_data c) = h \<and>
        (\<forall>p. cs_status (ch_status c) = ChunkFinalized p \<longrightarrow> (\<exists>d. (h, p, d) \<in> acked)))"

text \<open>
  The invariant of the pipeline: its blobs are the admitted ones still to be reported, in order,
  with their evidence, and no blob waits while there is no current one.
\<close>

definition pl_inv :: "lib \<Rightarrow> (hash \<times> peer_id \<times> bytes) set \<Rightarrow> admitted_blob list \<Rightarrow> pipeline \<Rightarrow> bool" where
  "pl_inv L acked rest pl \<longleftrightarrow>
     list_all2 represents rest (blobs pl) \<and> (\<forall>b\<in>set (blobs pl). blob_ok L acked b) \<and>
     (current_blob pl = None \<longrightarrow> pending_local_blobs pl = [])"

lemma pl_inv_cong:
  "current_blob pl' = current_blob pl \<Longrightarrow> pending_local_blobs pl' = pending_local_blobs pl \<Longrightarrow>
     pl_inv L acked rest pl' = pl_inv L acked rest pl"
  by (simp add: pl_inv_def blobs_def)

lemma pl_inv_new [simp]: "pl_inv L acked [] pipeline_new"
  by (simp add: pl_inv_def blobs_def pipeline_new_def)

lemma pl_inv_mono: "pl_inv L acked rest pl \<Longrightarrow> acked \<subseteq> acked' \<Longrightarrow> pl_inv L acked' rest pl"
  unfolding pl_inv_def blob_ok_def by blast

lemma pl_inv_current:
  assumes "pl_inv L acked rest pl" and "current_blob pl = Some b"
    and "lb_id b' = lb_id b" "lb_allowance b' = lb_allowance b" "lb_root_hash b' = lb_root_hash b"
    and "dom (lb_chunks b') = dom (lb_chunks b)" and "blob_ok L acked b'"
  shows "pl_inv L acked rest (pl\<lparr>current_blob := Some b'\<rparr>)"
proof -
  obtain a as where "rest = a # as" "represents a b" "list_all2 represents as (pending_local_blobs pl)"
    using assms(1,2) by (auto simp: pl_inv_def blobs_def list_all2_Cons2)
  moreover from this have "represents a b'" using assms(3-6) by (simp add: represents_def)
  ultimately show ?thesis using assms(1,2,7) by (simp add: pl_inv_def blobs_def)
qed

lemma blob_ok_start_tasks:
  assumes "blob_ok L acked b" and "task_hash ` set ts \<subseteq> dom (lb_chunks b)"
  shows "blob_ok L acked (b\<lparr>lb_chunks := fold start_task ts (lb_chunks b)\<rparr>)"
proof -
  have "blake3 L (ch_data c) = h \<and> (\<forall>p. cs_status (ch_status c) = ChunkFinalized p \<longrightarrow> (\<exists>d. (h, p, d) \<in> acked))"
    if started: "fold start_task ts (lb_chunks b) h = Some c" for h c
  proof -
    obtain c0 where c0: "lb_chunks b h = Some c0" "ch_data c = ch_data c0"
      "c = c0 \<or> (\<exists>p. cs_status (ch_status c) = ChunkInflight p)"
      using start_tasks_keep[OF assms(2), THEN conjunct2, rule_format, OF started] by blast
    moreover have "blake3 L (ch_data c0) = h" "cs_status (ch_status c0) = ChunkFinalized p \<Longrightarrow> \<exists>d. (h, p, d) \<in> acked" for p
      using assms(1) c0(1) by (auto simp: blob_ok_def)
    ultimately show ?thesis by auto
  qed
  then show ?thesis by (simp add: blob_ok_def)
qed

lemma chosen_tasks_in: "task_hash ` set (chosen_tasks now po co pl b) \<subseteq> dom (lb_chunks b)"
proof (cases "eligible_peers now po pl = []")
  case False
  then show ?thesis
    using chosen_task_hashes[OF False, of co b] eligible_chunks_in[of now co "lb_chunks b"]
    by (metis set_map set_take_subset subset_trans)
qed (simp add: chosen_tasks_def)

lemma chosen_tasks_payload:
  assumes "blob_ok L acked b" and "t \<in> set (chosen_tasks now po co pl b)"
  shows "blake3 L (task_payload t) = task_hash t"
proof -
  have "task_payload t = ch_data (the (lb_chunks b (task_hash t)))"
    using assms(2) by (auto simp: chosen_tasks_def split: if_splits)
  moreover have "task_hash t \<in> dom (lb_chunks b)" using chosen_tasks_in assms(2) by blast
  ultimately show ?thesis using assms(1) by (auto simp: blob_ok_def)
qed

text \<open>What the invariant of the whole system needs of one handler's result.\<close>

definition keeps_blobs :: "lib \<Rightarrow> (hash \<times> peer_id \<times> bytes) set \<Rightarrow> admitted_blob list
    \<Rightarrow> pipeline \<times> emission list \<Rightarrow> bool" where
  "keeps_blobs L acked rest r \<longleftrightarrow>
     pl_inv L acked rest (fst r) \<and> reported (snd r) = [] \<and> dropped (snd r) = [] \<and>
     (\<forall>t\<in>set (spawned (snd r)). blake3 L (task_payload t) = task_hash t)"

lemma keeps_blobs_silent: "pl_inv L acked rest pl \<Longrightarrow> keeps_blobs L acked rest (pl, [])"
  by (simp add: keeps_blobs_def)

lemma keeps_blobs_request: "pl_inv L acked rest pl \<Longrightarrow> keeps_blobs L acked rest (request_storage_permits now po pl)"
  using pl_inv_cong[of "fst (request_storage_permits now po pl)" pl] by (simp add: keeps_blobs_def)

lemma keeps_blobs_assign:
  assumes "pl_inv L acked rest pl" and "distinct co" and "\<not> sem_closed (upload_allowance pl)"
  shows "keeps_blobs L acked rest (assign_chunks now po co pl)"
proof (cases "current_blob pl")
  case None
  then show ?thesis using assms(1) by (auto simp: assign_chunks_def Let_def intro: keeps_blobs_silent)
next
  case (Some b)
  let ?ts = "chosen_tasks now po co pl b"
  let ?b = "b\<lparr>lb_chunks := fold start_task ?ts (lb_chunks b)\<rparr>"
  have ok: "blob_ok L acked b" using assms(1) Some by (simp add: pl_inv_def blobs_def)
  have "pl_inv L acked rest (pl\<lparr>current_blob := Some ?b\<rparr>)"
    using assms(1) Some start_tasks_keep[OF chosen_tasks_in[of now po co pl b]]
      blob_ok_start_tasks[OF ok chosen_tasks_in[of now po co pl b]]
    by (intro pl_inv_current) auto
  then show ?thesis
    using assign_chunks_spec[OF Some assms(2,3), of now po] chosen_tasks_payload[OF ok, of _ now po co pl]
    by (simp add: keeps_blobs_def pl_inv_def blobs_def)
qed

lemma keeps_blobs_begin:
  assumes "list_all2 represents rest (blobs pl)" and "\<forall>b\<in>set (blobs pl). blob_ok L acked b"
  shows "keeps_blobs L acked rest (begin_next_blob now po pl)"
proof (cases "current_blob pl = None \<and> pending_local_blobs pl \<noteq> []")
  case True
  then obtain b bs where "pending_local_blobs pl = b # bs" by (cases "pending_local_blobs pl") auto
  moreover from this have "pl_inv L acked rest (pl\<lparr>current_blob := Some b, pending_local_blobs := bs\<rparr>)"
    using assms True by (simp add: pl_inv_def blobs_def)
  ultimately show ?thesis using True keeps_blobs_request by (simp add: begin_next_blob_def)
next
  case False
  then have "pl_inv L acked rest pl" using assms by (auto simp: pl_inv_def)
  moreover have "begin_next_blob now po pl = (pl, []) \<or> begin_next_blob now po pl = (pl\<lparr>current_blob := None\<rparr>, [])"
    using False by (auto simp: begin_next_blob_def split: list.splits)
  moreover have "pl_inv L acked rest (pl\<lparr>current_blob := None\<rparr>)" if "current_blob pl = None"
    using \<open>pl_inv L acked rest pl\<close> that by (auto simp: pl_inv_def blobs_def)
  ultimately show ?thesis
    using False by (auto simp: begin_next_blob_def keeps_blobs_silent split: list.splits)
qed

text \<open>The chunks of an admitted blob carry their hashes, as the bridge hands them over.\<close>

definition admitted_ok :: "lib \<Rightarrow> admitted_blob \<Rightarrow> bool" where
  "admitted_ok L a \<longleftrightarrow> (\<forall>(h, d)\<in>set (ab_chunks a). h = blake3 L d)"

lemma keeps_blobs_add:
  assumes "pl_inv L acked rest pl" and "admitted_ok L a"
  shows "keeps_blobs L acked (rest @ [a]) (begin_next_blob now po (add_local_blob now a pl))"
proof (rule keeps_blobs_begin)
  let ?m = "collect_map (List.map (\<lambda>(hash, data).
      (hash, \<lparr>ch_data = data, ch_status = \<lparr>cs_at = now, cs_status = ChunkPending\<rparr>\<rparr>)) (ab_chunks a))"
  let ?b = "\<lparr>lb_id = ab_id a, lb_root_hash = ab_root_hash a, lb_merkle_tree = ab_merkle_tree a,
             lb_chunks = ?m, lb_allowance = ab_allowance a, lb_created_at = now\<rparr>"
  have bl: "blobs (add_local_blob now a pl) = blobs pl @ [?b]"
    by (simp add: blobs_def add_local_blob_def Let_def)
  have "dom ?m = fst ` set (ab_chunks a)" by (force simp: image_iff)
  then have "represents a ?b" by (simp add: represents_def)
  with assms(1) show "list_all2 represents (rest @ [a]) (blobs (add_local_blob now a pl))"
    by (simp add: bl pl_inv_def list_all2_appendI)
  have "blake3 L d = h" if "(h, d) \<in> set (ab_chunks a)" for h d
    using assms(2) that by (auto simp: admitted_ok_def)
  then have "blob_ok L acked ?b" by (auto simp: blob_ok_def dest!: collect_map_SomeD)
  with assms(1) show "\<forall>b\<in>set (blobs (add_local_blob now a pl)). blob_ok L acked b"
    by (simp add: bl pl_inv_def)
qed

text \<open>What a report must bring: a finalized status only with a recorded acknowledgement.\<close>

fun message_ok :: "(hash \<times> peer_id \<times> bytes) set \<Rightarrow> internal_message \<Rightarrow> bool" where
  "message_ok acked (UpdateChunkStatus h (ChunkFinalized p) _) \<longleftrightarrow> (\<exists>d. (h, p, d) \<in> acked)"
| "message_ok acked (UpdateChunkStatus h s _) \<longleftrightarrow> s = ChunkPending"

lemma message_ok_mono: "message_ok acked m \<Longrightarrow> acked \<subseteq> acked' \<Longrightarrow> message_ok acked' m"
  by (induction acked m rule: message_ok.induct) auto

lemma blob_ok_update:
  assumes "blob_ok L acked b" and "lb_chunks b h = Some c" and "message_ok acked (UpdateChunkStatus h s t)"
  shows "blob_ok L acked (b\<lparr>lb_chunks := (lb_chunks b)(h \<mapsto> set_status now s c)\<rparr>)"
  using assms by (cases s) (auto simp: blob_ok_def)

lemma all_finalized_iff:
  assumes "dom chunks \<subseteq> set co"
  shows "all_finalized co chunks \<longleftrightarrow>
    (\<forall>h c. chunks h = Some c \<longrightarrow> (\<exists>p. cs_status (ch_status c) = ChunkFinalized p))"
proof -
  let ?final = "\<lambda>h. \<forall>c. chunks h = Some c \<longrightarrow> (\<exists>p. cs_status (ch_status c) = ChunkFinalized p)"
  have "(case chunks h of None \<Rightarrow> True
      | Some c \<Rightarrow> (case cs_status (ch_status c) of ChunkFinalized _ \<Rightarrow> True | _ \<Rightarrow> False)) \<longleftrightarrow> ?final h" for h
    by (cases "chunks h") (auto split: chunk_upload_status.splits)
  then have "all_finalized co chunks \<longleftrightarrow> (\<forall>h\<in>set co. ?final h)"
    by (simp add: all_finalized_def list_all_iff)
  also have "\<dots> \<longleftrightarrow> (\<forall>h. ?final h)" using assms by (meson domI subsetD)
  finally show ?thesis .
qed

section \<open>The report of an upload\<close>

text \<open>
  The two results of \<open>on_internal\<close>: the current blob goes on, or all its chunks are finalized, it
  is reported and archived and the next one begins.
\<close>

definition reports_blob :: "lib \<Rightarrow> (hash \<times> peer_id \<times> bytes) set \<Rightarrow> admitted_blob list
    \<Rightarrow> pipeline \<times> emission list \<Rightarrow> bool" where
  "reports_blob L acked rest r \<longleftrightarrow>
     (\<exists>a rest'. rest = a # rest' \<and> pl_inv L acked rest' (fst r) \<and> reported (snd r) = [ab_id a] \<and>
        dropped (snd r) = [ab_allowance a] \<and> (\<forall>h\<in>fst ` set (ab_chunks a). \<exists>p d. (h, p, d) \<in> acked) \<and>
        (\<forall>t\<in>set (spawned (snd r)). blake3 L (task_payload t) = task_hash t))"

lemma on_internal_no_panic: "on_internal now ho po co m pl \<noteq> None"
  by (auto simp: on_internal_def archive_cur_blob_def Let_def
      split: internal_message.splits option.splits chunk_upload_status.splits prod.splits)

text \<open>The four ways the handler of a report ends.\<close>

definition noted :: "instant \<Rightarrow> hash \<Rightarrow> chunk_upload_status \<Rightarrow> local_blob \<Rightarrow> chunk \<Rightarrow> local_blob" where
  "noted now h s b c = b\<lparr>lb_chunks := (lb_chunks b)(h \<mapsto> set_status now s c)\<rparr>"

lemma noted_simps [simp]:
  "lb_id (noted now h s b c) = lb_id b" "lb_allowance (noted now h s b c) = lb_allowance b"
  "lb_root_hash (noted now h s b c) = lb_root_hash b"
  "lb_chunks (noted now h s b c) = (lb_chunks b)(h \<mapsto> set_status now s c)"
  by (simp_all add: noted_def)

lemma on_internal_cases:
  assumes "on_internal now ho po co (UpdateChunkStatus h s t) q = Some r"
  obtains (ignored) "r = (q, [])" "current_blob q = None \<or> lb_chunks (the (current_blob q)) h = None"
  | (recorded) b c where "current_blob q = Some b" "lb_chunks b h = Some c" "\<forall>p. s \<noteq> ChunkFinalized p"
      "r = (q\<lparr>current_blob := Some (noted now h s b c)\<rparr>, [])"
  | (progress) b c where "current_blob q = Some b" "lb_chunks b h = Some c"
      "\<not> all_finalized co (lb_chunks (noted now h s b c))"
      "r = assign_chunks now po co (q\<lparr>current_blob := Some (noted now h s b c)\<rparr>)"
  | (archived) b c begun where "current_blob q = Some b" "lb_chunks b h = Some c"
      "all_finalized co (lb_chunks (noted now h s b c))"
      "begun = begin_next_blob now ho (q\<lparr>current_blob := None\<rparr>)"
      "r = (fst (assign_chunks now po co (fst begun)),
         ToBridge (UpdateStatus (lb_id b) Finalized) # DropAllowance (lb_allowance b) # snd begun @
         snd (assign_chunks now po co (fst begun)))"
proof (cases "current_blob q = None \<or> lb_chunks (the (current_blob q)) h = None")
  case True
  then show thesis using assms ignored by (auto simp: on_internal_def split: option.splits)
next
  case False
  then obtain b c where b: "current_blob q = Some b" and c: "lb_chunks b h = Some c" by auto
  show thesis
  proof (cases "\<exists>p. s = ChunkFinalized p")
    case False
    then show thesis using assms b c recorded[OF b c]
      by (cases s) (auto simp: on_internal_def Let_def noted_def)
  next
    case True
    then show thesis using assms b c progress[OF b c] archived[OF b c]
      by (auto simp: on_internal_def archive_cur_blob_def Let_def noted_def case_prod_beta
          split: if_splits)
  qed
qed

lemma on_internal_keeps:
  assumes "pl_inv L acked rest q" and "message_ok acked m"
    and "distinct co" and "\<forall>b\<in>set (blobs q). dom (lb_chunks b) \<subseteq> set co"
    and "\<not> sem_closed (upload_allowance q)"
    and "on_internal now ho po co m q = Some r"
  shows "keeps_blobs L acked rest r \<or> reports_blob L acked rest r"
proof -
  obtain h s t where m: "m = UpdateChunkStatus h s t" by (cases m)
  have ok: "blob_ok L acked (noted now h s b c)"
    if "current_blob q = Some b" "lb_chunks b h = Some c" for b c
  proof -
    have "blob_ok L acked b" using assms(1) that(1) by (simp add: pl_inv_def blobs_def)
    from blob_ok_update[OF this that(2)] assms(2) show ?thesis unfolding m noted_def by blast
  qed
  have inv: "pl_inv L acked rest (q\<lparr>current_blob := Some (noted now h s b c)\<rparr>)"
    if "current_blob q = Some b" "lb_chunks b h = Some c" for b c
    using assms(1) that ok[OF that] by (intro pl_inv_current) auto
  from assms(6) show ?thesis unfolding m
  proof (cases rule: on_internal_cases)
    case ignored
    then show ?thesis using assms(1) keeps_blobs_silent by blast
  next
    case (recorded b c)
    then show ?thesis using inv keeps_blobs_silent by blast
  next
    case (progress b c)
    then show ?thesis using keeps_blobs_assign[OF inv[OF progress(1,2)] assms(3)] assms(5) by simp
  next
    case (archived b c begun)
    let ?b = "noted now h s b c"
    let ?fin = "assign_chunks now po co (fst begun)"
    obtain a rest' where rest: "rest = a # rest'" "represents a ?b"
      "list_all2 represents rest' (pending_local_blobs q)"
      using inv[OF archived(1,2)] by (auto simp: pl_inv_def blobs_def list_all2_Cons2)
    have "keeps_blobs L acked rest' begun"
      unfolding archived(4) using rest(3) inv[OF archived(1,2)]
      by (intro keeps_blobs_begin) (auto simp: blobs_def pl_inv_def)
    moreover have "upload_allowance (fst begun) = upload_allowance q" by (simp add: archived(4))
    ultimately have fin: "keeps_blobs L acked rest' ?fin"
      using assms(3,5) by (intro keeps_blobs_assign) (simp_all add: keeps_blobs_def)
    have dom: "dom (lb_chunks ?b) \<subseteq> set co" using assms(4) archived(1,2) by (auto simp: blobs_def)
    have "\<exists>p d. (x, p, d) \<in> acked" if "x \<in> fst ` set (ab_chunks a)" for x
    proof -
      have "x \<in> dom (lb_chunks ?b)" using that rest(2) by (simp add: represents_def)
      then obtain e where e: "lb_chunks ?b x = Some e" by blast
      with archived(3) all_finalized_iff[OF dom] obtain p where
        "cs_status (ch_status e) = ChunkFinalized p" by blast
      then show ?thesis using ok[OF archived(1,2)] e unfolding blob_ok_def by blast
    qed
    then have "reports_blob L acked rest r"
      using rest fin \<open>keeps_blobs L acked rest' begun\<close> unfolding reports_blob_def keeps_blobs_def
      by (simp add: archived(5) represents_def ball_Un)
    then show ?thesis ..
  qed
qed

lemma upload_balance_internal:
  assumes "distinct co" and "on_internal now ho po co m q = Some r"
  shows "upload_balance q r"
proof -
  obtain h s t where m: "m = UpdateChunkStatus h s t" by (cases m)
  from assms(2) show ?thesis unfolding m
  proof (cases rule: on_internal_cases)
    case (progress b c)
    then show ?thesis
      using upload_balance_from[OF upload_balance_assign[OF assms(1)]] by simp
  next
    case (archived b c begun)
    have "upload_allowance (fst begun) = upload_allowance q" "spawned (snd begun) = []"
      by (simp_all add: archived(4))
    then show ?thesis using upload_balance_assign[OF assms(1), of "fst begun" now po] archived(5)
      by (simp add: upload_balance_def)
  qed (simp_all add: upload_balance_same)
qed

end
