(* ===== verification/CoordinatorProperties.thy ===== *)
theory CoordinatorProperties
  imports CoordinatorCorrect
begin

text \<open>
  The functional properties of the coordinator's operations: assignment, re-assignment after the
  upload window, the report that finishes a blob, storage permits and hints.
\<close>

section \<open>Lemmas on the handlers\<close>

lemma is_eligible_iff:
  "is_eligible now c \<longleftrightarrow>
     (case cs_status (ch_status c) of
        ChunkPending \<Rightarrow> True
      | ChunkInflight _ \<Rightarrow> nanos (cs_at (ch_status c)) + from_secs 31 \<le> nanos now
      | ChunkFinalized _ \<Rightarrow> False)"
  using as_secs_gt_iff[of CHUNK_UPLOAD_WINDOW "duration_since now (cs_at (ch_status c))"]
  by (auto simp: is_eligible_def CHUNK_UPLOAD_WINDOW_def duration_since_def from_secs_def
      split: chunk_upload_status.splits)

lemma nth_chosen:
  assumes "k < length (chosen_tasks now po co q b)"
  shows "eligible_peers now po q \<noteq> [] \<and>
    chosen_tasks now po co q b ! k = task_for now (eligible_peers now po q) (lb_chunks b)
      (k, take (available_permits (upload_allowance q)) (eligible_chunks now co (lb_chunks b)) ! k)"
  using assms by (auto simp: chosen_tasks_def nth_enumerate_eq split: if_splits)

lemma distinct_chosen:
  assumes "distinct co"
  shows "distinct (List.map task_hash (chosen_tasks now po co q b))"
proof (cases "eligible_peers now po q = []")
  case False
  show ?thesis unfolding chosen_task_hashes[OF False] using assms by (simp add: eligible_chunks_def)
qed (simp add: chosen_tasks_def)

lemma find_task:
  "distinct (List.map task_hash ts) \<Longrightarrow> k < length ts \<Longrightarrow>
     find (\<lambda>t. task_hash t = task_hash (ts ! k)) ts = Some (ts ! k)"
proof (induction ts arbitrary: k)
  case (Cons t ts)
  then show ?case by (cases k) (auto simp: image_iff)
qed simp

section \<open>A sample pipeline for the witnesses\<close>

definition sample_chunk :: "u8 \<Rightarrow> chunk_upload_status \<Rightarrow> chunk" where
  "sample_chunk d s = \<lparr>ch_data = [d], ch_status = \<lparr>cs_at = Instant 0, cs_status = s\<rparr>\<rparr>"

definition sample_blob :: "(hash \<rightharpoonup> chunk) \<Rightarrow> local_blob" where
  "sample_blob m = \<lparr>lb_id = ''blob_a'', lb_root_hash = [0], lb_merkle_tree = [[1], [2]],
     lb_chunks = m, lb_allowance = 2, lb_created_at = Instant 0\<rparr>"

text \<open>Two chunks, the second one assigned at the start; one peer with a permit, one announced.\<close>

definition sample_pipeline :: pipeline where
  "sample_pipeline = pipeline_new\<lparr>current_blob := Some (sample_blob
      [[1] \<mapsto> sample_chunk 1 ChunkPending, [2] \<mapsto> sample_chunk 2 (ChunkInflight [9])]),
     storage_permits := [[8] \<mapsto> Instant (from_secs 60)],
     storage_provider_hints := [[8] \<mapsto> Instant 0]\<rparr>"

lemma sample_pipeline_simps [simp]:
  "current_blob sample_pipeline = Some (sample_blob
      [[1] \<mapsto> sample_chunk 1 ChunkPending, [2] \<mapsto> sample_chunk 2 (ChunkInflight [9])])"
  "storage_permits sample_pipeline = [[8] \<mapsto> Instant (from_secs 60)]"
  "storage_provider_hints sample_pipeline = [[8] \<mapsto> Instant 0]"
  "upload_allowance sample_pipeline = semaphore_new 20" "\<not> sem_closed (semaphore_new k)"
  "lb_chunks (sample_blob m) = m" "ch_data (sample_chunk d s) = [d]"
  "cs_status (ch_status (sample_chunk d s)) = s" "cs_at (ch_status (sample_chunk d s)) = Instant 0"
  "lb_id (sample_blob m) = ''blob_a''"
  by (simp_all add: sample_pipeline_def pipeline_new_def semaphore_new_def sample_blob_def sample_chunk_def)

lemma sample_eligible [simp]:
  "k < 60 \<Longrightarrow> eligible_peers (Instant (from_secs k)) [[8]] sample_pipeline = [[8]]"
  by (simp add: eligible_peers_def less_instant_def from_secs_def)

section \<open>Properties\<close>

text \<open>C10: An assignment uses the permits it can. With a current blob it starts one task for each of the
  first eligible chunks, as many as there are free permits, provided some peer has an unexpired
  storage permit; the peers take turns, each task carries its chunk's data, its chunk becomes
  \<open>Inflight\<close> to its peer as of now, and every other chunk stays as it was.\<close>

theorem assign_chunks_assigns:
  assumes "current_blob q = Some b" and "distinct co" and "\<not> sem_closed (upload_allowance q)"
    and "assign_chunks now po co q = (q', es)"
  shows "\<exists>ts b'. es = List.map Spawn ts \<and> current_blob q' = Some b' \<and>
    List.map task_hash ts = (if eligible_peers now po q = [] then []
      else take (available_permits (upload_allowance q)) (eligible_chunks now co (lb_chunks b))) \<and>
    available_permits (upload_allowance q') + length ts = available_permits (upload_allowance q) \<and>
    (\<forall>k<length ts.
       task_peer (ts ! k) = eligible_peers now po q ! (k mod length (eligible_peers now po q)) \<and>
       task_started (ts ! k) = now \<and>
       (\<exists>c. lb_chunks b (task_hash (ts ! k)) = Some c \<and> is_eligible now c \<and> task_payload (ts ! k) = ch_data c \<and>
          lb_chunks b' (task_hash (ts ! k)) = Some (set_status now (ChunkInflight (task_peer (ts ! k))) c))) \<and>
    (\<forall>h. h \<notin> task_hash ` set ts \<longrightarrow> lb_chunks b' h = lb_chunks b h)"
proof -
  let ?ts = "chosen_tasks now po co q b"
  let ?b = "b\<lparr>lb_chunks := fold start_task ?ts (lb_chunks b)\<rparr>"
  note spec = assign_chunks_spec[OF assms(1-3), of now po]
  have dist: "distinct (List.map task_hash ?ts)" using assms(2) by (rule distinct_chosen)
  have each: "task_peer (?ts ! k) = eligible_peers now po q ! (k mod length (eligible_peers now po q)) \<and>
       task_started (?ts ! k) = now \<and>
       (\<exists>c. lb_chunks b (task_hash (?ts ! k)) = Some c \<and> is_eligible now c \<and> task_payload (?ts ! k) = ch_data c \<and>
          lb_chunks ?b (task_hash (?ts ! k)) = Some (set_status now (ChunkInflight (task_peer (?ts ! k))) c))"
    if k: "k < length ?ts" for k
  proof -
    let ?hs = "take (available_permits (upload_allowance q)) (eligible_chunks now co (lb_chunks b))"
    note nth = nth_chosen[OF k]
    have "?hs ! k \<in> set ?hs" using k nth chosen_task_hashes[of now po q co b]
      by (intro nth_mem) (metis length_map)
    then have "?hs ! k \<in> set (eligible_chunks now co (lb_chunks b))" by (rule in_set_takeD)
    then obtain c where "lb_chunks b (?hs ! k) = Some c" "is_eligible now c"
      by (auto simp: eligible_chunks_def split: option.splits)
    then show ?thesis
      using nth fold_start_task_lookup[OF dist, of "lb_chunks b" "task_hash (?ts ! k)"] find_task[OF dist k]
      by simp
  qed
  have rest: "lb_chunks ?b h = lb_chunks b h" if "h \<notin> task_hash ` set ?ts" for h
  proof -
    have "find (\<lambda>t. task_hash t = h) ?ts = None" using that by (auto simp: find_None_iff)
    then show ?thesis using fold_start_task_lookup[OF dist, of "lb_chunks b" h] by simp
  qed
  have hs: "List.map task_hash ?ts = (if eligible_peers now po q = [] then []
      else take (available_permits (upload_allowance q)) (eligible_chunks now co (lb_chunks b)))"
    using chosen_task_hashes[of now po q co b] by (simp add: chosen_tasks_def)
  have av: "available_permits (upload_allowance q') + length ?ts = available_permits (upload_allowance q)"
    using spec assms(4) length_chosen_tasks[of now po co q b] by (auto simp: available_permits_def)
  have "es = List.map Spawn ?ts" "current_blob q' = Some ?b" using spec assms(4) by auto
  with hs av each rest show ?thesis by (intro exI[of _ ?ts] exI[of _ ?b]) blast
qed

theorem assign_chunks_assigns_witness:
  "\<exists>q' t. assign_chunks (Instant (from_secs 1)) [[8]] [[1], [2]] sample_pipeline = (q', [Spawn t]) \<and>
     task_hash t = [1] \<and> task_peer t = [8]"
proof -
  obtain q' es where run: "assign_chunks (Instant (from_secs 1)) [[8]] [[1], [2]] sample_pipeline = (q', es)"
    by fastforce
  have "eligible_chunks (Instant (from_secs 1)) [[1], [2]]
      [[1] \<mapsto> sample_chunk 1 ChunkPending, [2] \<mapsto> sample_chunk 2 (ChunkInflight [9])] = [[1]]"
    by (simp add: eligible_chunks_def is_eligible_iff from_secs_def)
  then obtain t where "es = [Spawn t]" "task_hash t = [1]" "task_peer t = [8]"
    using assign_chunks_assigns[OF _ _ _ run] by auto
  with run show ?thesis by blast
qed

text \<open>C24: A chunk on its way is left alone for its upload window. \<open>assign_chunks\<close> starts a task for a
  chunk that is \<open>Inflight\<close> only when at least 31 seconds have passed since it was assigned, one more
  than the time-out of the upload, and never for a finalized one.\<close>

theorem no_reassignment_within_window:
  assumes "current_blob q = Some b" and "distinct co" and "\<not> sem_closed (upload_allowance q)"
    and "Spawn t \<in> set (snd (assign_chunks now po co q))"
  shows "\<exists>c. lb_chunks b (task_hash t) = Some c \<and>
    (cs_status (ch_status c) = ChunkPending \<or>
     (\<exists>p. cs_status (ch_status c) = ChunkInflight p \<and> nanos (cs_at (ch_status c)) + from_secs 31 \<le> nanos now))"
proof -
  have "t \<in> set (chosen_tasks now po co q b)"
    using assms(4) by (auto simp: assign_chunks_spec[OF assms(1-3)])
  then have peers: "eligible_peers now po q \<noteq> []" and t: "task_hash t \<in> set (List.map task_hash (chosen_tasks now po co q b))"
    by (auto simp: chosen_tasks_def)
  then have "task_hash t \<in> set (eligible_chunks now co (lb_chunks b))"
    unfolding chosen_task_hashes[OF peers] by (rule_tac in_set_takeD)
  then show ?thesis
    by (auto simp: eligible_chunks_def is_eligible_iff split: option.splits chunk_upload_status.splits)
qed

theorem no_reassignment_within_window_witness:
  "\<exists>t. Spawn t \<in> set (snd (assign_chunks (Instant (from_secs 31)) [[8]] [[2]] sample_pipeline)) \<and>
     task_hash t = [2] \<and> nanos (Instant 0) + from_secs 31 \<le> nanos (Instant (from_secs 31))"
proof -
  have "is_eligible (Instant (from_secs 31)) (sample_chunk 2 (ChunkInflight [9]))"
    by (simp add: is_eligible_iff)
  then obtain t where t: "Spawn t \<in> set (snd (assign_chunks (Instant (from_secs 31)) [[8]] [[2]] sample_pipeline))"
    "task_hash t = [2]"
    by (simp add: assign_chunks_def eligible_chunks_def Let_def try_acquire_many_def semaphore_new_def
        available_permits_def)
  from no_reassignment_within_window[OF _ _ _ t(1)] t show ?thesis by auto
qed



text \<open>C29: A storage permit counts for exactly the granted time. After \<open>IssuedStoragePermit\<close> the peer is
  eligible until \<open>valid_for\<close> seconds later and not after; a grant that the clock cannot represent
  never makes it eligible.\<close>

theorem storage_permit_valid_for:
  assumes "\<not> sem_closed (upload_allowance q)" and "distinct co" and "now \<le> later"
  shows "p \<in> set (eligible_peers later [p]
      (fst (on_handler_message L now po co (Response p i (IssuedStoragePermit secs)) q))) \<longleftrightarrow>
    nanos now + from_secs (unat secs) \<le> instant_max L \<and> nanos later < nanos now + from_secs (unat secs)"
proof -
  let ?e = "case checked_add L now (from_secs (unat secs)) of None \<Rightarrow> now | Some t \<Rightarrow> t"
  let ?q = "q\<lparr>storage_permits := (storage_permits q)(p \<mapsto> ?e)\<rparr>"
  have "storage_permits (fst (assign_chunks now po co s)) = storage_permits s" if "\<not> sem_closed (upload_allowance s)" for s
    using assign_chunks_spec[OF _ assms(2) that, of _ now po]
    by (cases "current_blob s") (simp_all add: assign_chunks_def Let_def)
  then have "storage_permits (fst (on_handler_message L now po co (Response p i (IssuedStoragePermit secs)) q)) p = Some ?e"
    using assms(1) by (simp add: on_handler_message_def Let_def)
  then have "p \<in> set (eligible_peers later [p]
      (fst (on_handler_message L now po co (Response p i (IssuedStoragePermit secs)) q))) \<longleftrightarrow> ?e > later"
    by (simp add: eligible_peers_def)
  also have "\<dots> \<longleftrightarrow> nanos now + from_secs (unat secs) \<le> instant_max L \<and> nanos later < nanos now + from_secs (unat secs)"
    using assms(3) by (auto simp: checked_add_def less_instant_def less_eq_instant_def)
  finally show ?thesis .
qed

theorem storage_permit_valid_for_witness:
  "[7] \<in> set (eligible_peers (Instant (from_secs 59)) [[7]]
      (fst (on_handler_message sample_lib (Instant 0) [[7]] [] (Response [7] 0 (IssuedStoragePermit 60)) sample_pipeline))) \<and>
   [7] \<notin> set (eligible_peers (Instant (from_secs 60)) [[7]]
      (fst (on_handler_message sample_lib (Instant 0) [[7]] [] (Response [7] 0 (IssuedStoragePermit 60)) sample_pipeline)))"
  using storage_permit_valid_for[of sample_pipeline "[]" "Instant 0" "Instant (from_secs 59)" "[7]" sample_lib "[[7]]" 0 60]
    storage_permit_valid_for[of sample_pipeline "[]" "Instant 0" "Instant (from_secs 60)" "[7]" sample_lib "[[7]]" 0 60]
  by (simp add: less_eq_instant_def from_secs_def sample_lib_def)

text \<open>C33: Permits are requested when they are needed. \<open>request_storage_permits\<close> asks every known storage
  provider, once, exactly when there is one and no recorded permit is unexpired; on the way it
  forgets the expired permits.\<close>

theorem request_storage_permits_when_needed:
  assumes "covers ho (storage_provider_hints q)" and "covers ho (storage_permits q)"
    and "request_storage_permits now ho q = (q', es)"
  shows "es = (if storage_provider_hints q \<noteq> Map.empty \<and> (\<forall>p e. storage_permits q p = Some e \<longrightarrow> e \<le> now)
      then [ToSwarm (RequestStoragePermits (keys_in ho (storage_provider_hints q)))] else []) \<and>
    enumerates (keys_in ho (storage_provider_hints q)) (storage_provider_hints q) \<and>
    (storage_provider_hints q \<noteq> Map.empty \<longrightarrow>
       (\<forall>p e. storage_permits q' p = Some e \<longleftrightarrow> storage_permits q p = Some e \<and> e > now))"
proof -
  have cov: "covers ho (retain (\<lambda>e. now < e) (storage_permits q))"
    using assms(2) dom_retain_subset[of "\<lambda>e. now < e" "storage_permits q"] by (auto simp: covers_def)
  have "retain (\<lambda>e. now < e) (storage_permits q) = Map.empty \<longleftrightarrow> (\<forall>p e. storage_permits q p = Some e \<longrightarrow> e \<le> now)"
    by (simp add: retain_eq_empty not_less)
  then have needed: "keys_in ho (retain (\<lambda>e. now < e) (storage_permits q)) = [] \<longleftrightarrow>
      (\<forall>p e. storage_permits q p = Some e \<longrightarrow> e \<le> now)"
    using keys_in_empty_iff[OF cov] by simp
  show ?thesis
    using assms(3) needed keys_in_empty_iff[OF assms(1)] keys_in_enumerates[OF assms(1)]
    by (auto simp: request_storage_permits_def Let_def split: if_splits)
qed

theorem request_storage_permits_when_needed_witness:
  "snd (request_storage_permits (Instant (from_secs 60)) [[8]] sample_pipeline) =
     [ToSwarm (RequestStoragePermits [[8]])]"
proof -
  obtain q' es where run: "request_storage_permits (Instant (from_secs 60)) [[8]] sample_pipeline = (q', es)"
    by fastforce
  have "covers [[8]] (storage_provider_hints sample_pipeline)" "covers [[8]] (storage_permits sample_pipeline)"
    by (simp_all add: covers_def)
  from request_storage_permits_when_needed[OF this run] run show ?thesis
    by (simp add: keys_in_def)
qed

text \<open>C39: Hints decay. After the tick of the stale timer the known storage providers are exactly those
  whose last announcement is younger than five minutes.\<close>

theorem hints_decay:
  "storage_provider_hints (fst (on_timer_stale now ho q)) p = Some t \<longleftrightarrow>
     storage_provider_hints q p = Some t \<and> nanos now < nanos t + from_secs 300"
  by (auto simp: on_timer_stale_def Let_def as_secs_less_iff STORAGE_PROVIDER_DECAY_def duration_since_def
      from_secs_def)

end
