(* ===== verification/Swarm.thy ===== *)
theory Swarm
  imports Runtime Protocol
begin

text \<open>
  The swarm task, \<open>process_swarm\<close> of \<open>crates/peyk/src/lib.rs\<close>: one turn of its loop on what
  \<open>select!\<close> delivers. The calls on the libp2p swarm are recorded as actions, the messages for the
  consumer go into the handler channel.
\<close>

section \<open>Addresses\<close>

text \<open>A multiaddress is a list of protocol parts, of which the code looks at IPv4 ones only.\<close>

datatype addr_part = Ip4 u8 u8 u8 u8 | OtherPart string

type_synonym multiaddr = "addr_part list"

text \<open>\<open>Ipv4Addr::is_private\<close> and \<open>Ipv4Addr::is_loopback\<close> of the standard library.\<close>

fun is_private :: "u8 \<times> u8 \<times> u8 \<times> u8 \<Rightarrow> bool" where
  "is_private (a, b, c, d) \<longleftrightarrow>
     a = 10 \<or> (a = 172 \<and> 16 \<le> b \<and> b \<le> 31) \<or> (a = 192 \<and> b = 168)"

fun is_loopback :: "u8 \<times> u8 \<times> u8 \<times> u8 \<Rightarrow> bool" where
  "is_loopback (a, b, c, d) \<longleftrightarrow> a = 127"

definition ip4_parts :: "multiaddr \<Rightarrow> (u8 \<times> u8 \<times> u8 \<times> u8) list" where
  "ip4_parts address =
     List.map_filter (\<lambda>p. case p of Ip4 a b c d \<Rightarrow> Some (a, b, c, d) | OtherPart _ \<Rightarrow> None) address"

definition is_public :: "multiaddr \<Rightarrow> bool" where
  "is_public address \<longleftrightarrow> list_all (\<lambda>a. \<not> is_private a \<and> \<not> is_loopback a) (ip4_parts address)"

section \<open>Inputs and actions\<close>

datatype swarm_event =
    NewListenAddr multiaddr
  | ConnectionEstablished peer_id
  | IdentifyReceived peer_id
  | NewExternalAddrOfPeer peer_id multiaddr
  | GossipMessage "peer_id option" bytes
  | ClosestPeersOk "peer_id list"
  | ClosestPeersTimeout
  | ReqRespRequest peer_id nat request
  | ReqRespResponse peer_id nat response
  | OtherEvent

datatype swarm_input =
    Cancelled
  | DiscoveryTick peer_id
  | FromConsumer "swarm_message option"
  | Event swarm_event

datatype swarm_action =
    GetClosestPeers peer_id
  | SendRequest peer_id request
  | AddAddress peer_id multiaddr

section \<open>One turn of the loop\<close>

text \<open>
  \<open>gossip_ok\<close> is whether \<open>bincode::deserialize::<u8>\<close> succeeds. A response is passed to
  \<open>tx_handler.send\<close>, whose future is neither awaited nor polled: the message is dropped with it.
\<close>

definition on_swarm_event :: "(bytes \<Rightarrow> bool) \<Rightarrow> swarm_event \<Rightarrow> handler_message channel
    \<Rightarrow> swarm_action list \<times> handler_message channel" where
  "on_swarm_event gossip_ok ev ch =
     (case ev of
        NewListenAddr _ \<Rightarrow> ([], ch)
      | ConnectionEstablished _ \<Rightarrow> ([], ch)
      | IdentifyReceived _ \<Rightarrow> ([], ch)
      | NewExternalAddrOfPeer peer address \<Rightarrow>
          (if is_public address then [AddAddress peer address] else [], ch)
      | GossipMessage source data \<Rightarrow>
          (case source of
             None \<Rightarrow> ([], ch)
           | Some peer \<Rightarrow>
               ([], if gossip_ok data then chan_try_send (WouldStore peer) ch else ch))
      | ClosestPeersOk _ \<Rightarrow> ([], ch)
      | ClosestPeersTimeout \<Rightarrow> ([], ch)
      | ReqRespRequest peer request_id request \<Rightarrow>
          ([], chan_try_send (Request peer request_id request) ch)
      | ReqRespResponse peer request_id response \<Rightarrow> ([], ch)
      | OtherEvent \<Rightarrow> ([], ch))"

definition on_swarm_message :: "swarm_message \<Rightarrow> swarm_action list" where
  "on_swarm_message m =
     (case m of RequestStoragePermits peers \<Rightarrow> List.map (\<lambda>peer. SendRequest peer StoragePermit) peers)"

text \<open>\<open>None\<close> is the end of the loop: a shutdown request or a closed channel.\<close>

definition process_swarm_turn :: "(bytes \<Rightarrow> bool) \<Rightarrow> swarm_input \<Rightarrow> handler_message channel
    \<Rightarrow> (swarm_action list \<times> handler_message channel) option" where
  "process_swarm_turn gossip_ok inp ch =
     (case inp of
        Cancelled \<Rightarrow> None
      | DiscoveryTick random_peer_id \<Rightarrow> Some ([GetClosestPeers random_peer_id], ch)
      | FromConsumer r \<Rightarrow>
          (case r of
             None \<Rightarrow> None
           | Some sw_req \<Rightarrow> Some (on_swarm_message sw_req, ch))
      | Event ev \<Rightarrow> Some (on_swarm_event gossip_ok ev ch))"

text \<open>The loop on a sequence of inputs: the actions and the channel when it stops or the inputs end.\<close>

fun process_swarm :: "(bytes \<Rightarrow> bool) \<Rightarrow> swarm_input list \<Rightarrow> handler_message channel
    \<Rightarrow> swarm_action list \<times> handler_message channel" where
  "process_swarm gossip_ok [] ch = ([], ch)"
| "process_swarm gossip_ok (inp # inps) ch =
     (case process_swarm_turn gossip_ok inp ch of
        None \<Rightarrow> ([], ch)
      | Some (acts, ch') \<Rightarrow>
          (case process_swarm gossip_ok inps ch' of (acts', ch'') \<Rightarrow> (acts @ acts', ch'')))"

text \<open>A message the swarm task can put into the handler channel.\<close>

definition swarm_feeds :: "(bytes \<Rightarrow> bool) \<Rightarrow> handler_message \<Rightarrow> bool" where
  "swarm_feeds gossip_ok m \<longleftrightarrow>
     (\<exists>inp ch acts ch'. process_swarm_turn gossip_ok inp ch = Some (acts, ch') \<and>
        queued ch' = queued ch @ [m])"

section \<open>What reaches the consumer\<close>

definition is_response :: "handler_message \<Rightarrow> bool" where
  "is_response m \<longleftrightarrow> (case m of Response _ _ _ \<Rightarrow> True | _ \<Rightarrow> False)"

lemma is_response_simps [simp]:
  "is_response (Response p i r)" "\<not> is_response (WouldStore p)" "\<not> is_response (Request p i q)"
  by (simp_all add: is_response_def)

lemma chan_try_send_queued:
  "queued (chan_try_send m c) = (if rx_alive c \<and> has_room c then queued c @ [m] else queued c)"
  by (simp add: chan_try_send_def chan_send_def)

lemma chan_try_send_same [simp]:
  "capacity (chan_try_send m c) = capacity c" "rx_alive (chan_try_send m c) = rx_alive c"
  by (simp_all add: chan_try_send_def chan_send_def)

text \<open>One turn queues at most one message, for a gossip or a request only.\<close>

lemma swarm_turn_queued:
  assumes "process_swarm_turn gossip_ok inp ch = Some (acts, ch')"
  shows "queued ch' = queued ch \<or> (\<exists>m. queued ch' = queued ch @ [m] \<and> \<not> is_response m)"
  using assms
  by (auto simp: process_swarm_turn_def on_swarm_event_def chan_try_send_queued
      split: swarm_input.splits option.splits swarm_event.splits if_splits)

lemma swarm_feeds_no_response: "swarm_feeds gossip_ok m \<Longrightarrow> \<not> is_response m"
  using swarm_turn_queued by (fastforce simp: swarm_feeds_def)

lemma process_swarm_no_response:
  "process_swarm gossip_ok inps ch = (acts, ch') \<Longrightarrow> \<forall>m\<in>set (queued ch). \<not> is_response m \<Longrightarrow>
     \<forall>m\<in>set (queued ch'). \<not> is_response m"
proof (induction inps arbitrary: ch acts)
  case (Cons inp inps)
  show ?case
  proof (cases "process_swarm_turn gossip_ok inp ch")
    case None
    then show ?thesis using Cons.prems by simp
  next
    case (Some r)
    obtain a1 ch1 where r: "r = (a1, ch1)" by (cases r)
    obtain a2 where "process_swarm gossip_ok inps ch1 = (a2, ch')"
      using Cons.prems(1) Some r by (auto split: prod.splits)
    moreover have "\<forall>m\<in>set (queued ch1). \<not> is_response m"
      using swarm_turn_queued[of gossip_ok inp ch a1 ch1] Some r Cons.prems(2) by auto
    ultimately show ?thesis by (rule Cons.IH)
  qed
qed simp

text \<open>Only addresses without private or loopback IPv4 parts are added to the routing table.\<close>

lemma process_swarm_addresses:
  "process_swarm gossip_ok inps ch = (acts, ch') \<Longrightarrow> AddAddress p a \<in> set acts \<Longrightarrow>
     is_public a \<and> Event (NewExternalAddrOfPeer p a) \<in> set inps"
proof (induction inps arbitrary: ch acts)
  case (Cons inp inps)
  then obtain a1 ch1 where r: "process_swarm_turn gossip_ok inp ch = Some (a1, ch1)"
    by (cases "process_swarm_turn gossip_ok inp ch") auto
  obtain a2 where a2: "process_swarm gossip_ok inps ch1 = (a2, ch')" "acts = a1 @ a2"
    using Cons.prems(1) r by (auto split: prod.splits)
  have "is_public a \<and> inp = Event (NewExternalAddrOfPeer p a)" if "AddAddress p a \<in> set a1"
    using that r by (auto simp: process_swarm_turn_def on_swarm_event_def on_swarm_message_def
        split: swarm_input.splits option.splits swarm_event.splits if_splits swarm_message.splits)
  then show ?case using Cons.IH[OF a2(1)] Cons.prems(2) a2(2) by auto
qed simp

lemma in_ip4_parts: "(a, b, c, d) \<in> set (ip4_parts address) \<longleftrightarrow> Ip4 a b c d \<in> set address"
  by (induction address)
    (auto simp: ip4_parts_def map_filter_def split: addr_part.splits if_splits)

section \<open>Properties\<close>

text \<open>C26: Responses never reach the consumer. Whatever the swarm delivers, after any sequence of inputs
  the handler channel holds no response that was not there before: the storage permits that peers
  grant are lost between the swarm task and the coordinator.\<close>

theorem responses_never_delivered:
  assumes "\<forall>m\<in>set (queued ch). \<not> is_response m"
  shows "\<forall>m\<in>set (queued (snd (process_swarm gossip_ok inps ch))). \<not> is_response m"
  using process_swarm_no_response[of gossip_ok inps ch "fst (process_swarm gossip_ok inps ch)"
      "snd (process_swarm gossip_ok inps ch)"] assms by simp

theorem responses_never_delivered_witness:
  "queued (snd (process_swarm (\<lambda>_. True)
     [Event (GossipMessage (Some [8]) [0]), Event (ReqRespResponse [8] 0 (IssuedStoragePermit 60))]
     (channel_new (Some 256)))) = [WouldStore [8]]"
proof -
  let ?r = "queued (snd (process_swarm (\<lambda>_. True)
     [Event (GossipMessage (Some [8]) [0]), Event (ReqRespResponse [8] 0 (IssuedStoragePermit 60))]
     (channel_new (Some 256))))"
  have "\<forall>m\<in>set ?r. \<not> is_response m"
    by (rule responses_never_delivered) (simp add: channel_new_def)
  moreover have "?r = [WouldStore [8]]"
    by (simp add: process_swarm_turn_def on_swarm_event_def chan_try_send_queued channel_new_def has_room_def)
  ultimately show ?thesis by simp
qed

text \<open>C38: The routing table gets public addresses. Every address the task adds was announced as an
  external address and none of its IPv4 parts is in 10/8, 172.16/12, 192.168/16 or 127/8.\<close>

theorem only_public_addresses:
  assumes "AddAddress p address \<in> set (fst (process_swarm gossip_ok inps ch))"
  shows "Event (NewExternalAddrOfPeer p address) \<in> set inps \<and>
    (\<forall>a b c d. Ip4 a b c d \<in> set address \<longrightarrow>
       a \<noteq> 10 \<and> \<not> (a = 172 \<and> 16 \<le> b \<and> b \<le> 31) \<and> \<not> (a = 192 \<and> b = 168) \<and> a \<noteq> 127)"
proof -
  have "is_public address \<and> Event (NewExternalAddrOfPeer p address) \<in> set inps"
    using process_swarm_addresses[of gossip_ok inps ch _ "snd (process_swarm gossip_ok inps ch)"] assms
    by (metis prod.collapse)
  then show ?thesis by (auto simp: is_public_def list_all_iff in_ip4_parts[symmetric])
qed

theorem only_public_addresses_witness:
  "AddAddress [8] [Ip4 8 8 8 8, OtherPart ''tcp''] \<in> set (fst (process_swarm (\<lambda>_. True)
     [Event (NewExternalAddrOfPeer [8] [Ip4 8 8 8 8, OtherPart ''tcp''])] (channel_new (Some 256)))) \<and>
   (8 :: u8) \<noteq> 10"
proof -
  have "AddAddress [8] [Ip4 8 8 8 8, OtherPart ''tcp''] \<in> set (fst (process_swarm (\<lambda>_. True)
     [Event (NewExternalAddrOfPeer [8] [Ip4 8 8 8 8, OtherPart ''tcp''])] (channel_new (Some 256))))"
    by (simp add: process_swarm_turn_def on_swarm_event_def is_public_def ip4_parts_def map_filter_def)
  from only_public_addresses[OF this] this show ?thesis by auto
qed

end
