(* ===== verification/Node.thy ===== *)
theory Node
  imports Coordinator Swarm
begin

text \<open>
  A running client, \<open>bin/client/src/lib.rs\<close>: the bridge, the coordinator and the upload tasks
  as one step relation over their shared state, the channels between them with the
  capacities of \<open>run\<close>, and histories of what has happened.

  A handler of the coordinator waits while a channel it sends to is full, and its loop waits
  with it; no other task looks at the pipeline meanwhile, so a step runs the whole handler and
  is possible when every message it sends has room. The request handlers of the bridge run
  concurrently and are cut at their \<open>await\<close>s.
\<close>

section \<open>State\<close>

record node =
  clock :: instant
  bridge :: bridge_state
  uploads :: "upload list"
  lookups :: "(blob_id \<times> status) list"
  admission_ch :: "to_pipeline channel"
  handler_ch :: "handler_message channel"
  swarm_ch :: "swarm_message channel"
  bridge_ch :: "to_bridge channel"
  internal_ch :: "internal_message channel"
  pl :: pipeline
  running :: "upload_task list"
  handed :: "admitted_blob list"
  asked :: "swarm_action list"
  deliveries :: "(peer_id \<times> incoming_push) list"
  acked :: "(hash \<times> peer_id \<times> bytes) set"

text \<open>
  The last four fields are histories: the blobs handed to the coordinator, the requests sent to
  peers, the payloads that peers delivered, the acknowledged uploads.
\<close>

definition node_new :: node where
  "node_new = \<lparr>clock = Instant 0, bridge = bridge_state_new, uploads = [], lookups = [],
     admission_ch = channel_new (Some 16), handler_ch = channel_new (Some 256),
     swarm_ch = channel_new (Some 16), bridge_ch = channel_new (Some 128),
     internal_ch = channel_new None, pl = pipeline_new, running = [],
     handed = [], asked = [], deliveries = [], acked = {}\<rparr>"

definition without :: "nat \<Rightarrow> 'a list \<Rightarrow> 'a list" where
  "without i xs = take i xs @ drop (Suc i) xs"

section \<open>What the coordinator emits\<close>

definition send_waiting :: "'m \<Rightarrow> 'm channel \<Rightarrow> 'm channel option" where
  "send_waiting m ch =
     (case chan_send m ch of Sent ch' \<Rightarrow> Some ch' | Closed \<Rightarrow> Some ch | WouldWait \<Rightarrow> None)"

definition deliver :: "emission \<Rightarrow> node \<Rightarrow> node option" where
  "deliver e n =
     (case e of
        ToSwarm m \<Rightarrow> map_option (\<lambda>ch. n\<lparr>swarm_ch := ch\<rparr>) (send_waiting m (swarm_ch n))
      | ToBridge m \<Rightarrow> map_option (\<lambda>ch. n\<lparr>bridge_ch := ch\<rparr>) (send_waiting m (bridge_ch n))
      | Spawn t \<Rightarrow> Some (n\<lparr>running := running n @ [t]\<rparr>)
      | DropAllowance k \<Rightarrow> Some (n\<lparr>bridge := (bridge n)
          \<lparr>admission_budget := release_many k (admission_budget (bridge n))\<rparr>\<rparr>))"

fun deliver_all :: "emission list \<Rightarrow> node \<Rightarrow> node option" where
  "deliver_all [] n = Some n"
| "deliver_all (e # es) n = Option.bind (deliver e n) (deliver_all es)"

definition handled :: "pipeline \<times> emission list \<Rightarrow> node \<Rightarrow> node option" where
  "handled r n = deliver_all (snd r) (n\<lparr>pl := fst r\<rparr>)"

text \<open>Iteration orders for every map that a handler of the coordinator may walk over.\<close>

definition orders :: "node \<Rightarrow> peer_id list \<Rightarrow> peer_id list \<Rightarrow> hash list \<Rightarrow> bool" where
  "orders n hint_order peer_order chunk_order \<longleftrightarrow>
     covers hint_order (storage_provider_hints (pl n)) \<and>
     covers peer_order (storage_permits (pl n)) \<and>
     (\<forall>p i r. Response p i r \<in> set (queued (handler_ch n)) \<longrightarrow> p \<in> set peer_order) \<and>
     distinct chunk_order \<and>
     (\<forall>b. current_blob (pl n) = Some b \<or> b \<in> set (pending_local_blobs (pl n)) \<longrightarrow>
        dom (lb_chunks b) \<subseteq> set chunk_order)"

section \<open>Uploads and their tasks\<close>

text \<open>An upload request ends without a blob: its guards are dropped.\<close>

definition drop_upload :: "nat \<Rightarrow> node \<Rightarrow> node" where
  "drop_upload i n = n\<lparr>bridge := upload_drop (uploads n ! i) (bridge n), uploads := without i (uploads n)\<rparr>"

text \<open>
  What the peer of a push does. A peer in \<open>nodes\<close> runs the push handler of the program
  on a stream whose ends each see a truncated copy of what the other wrote; of any other peer
  nothing is known.
\<close>

definition served :: "lib \<Rightarrow> peer_id set \<Rightarrow> peer_id \<Rightarrow> peer_id \<Rightarrow> io \<Rightarrow> io \<Rightarrow> incoming_push list \<Rightarrow> bool" where
  "served L nodes me peer sc sc' del \<longleftrightarrow>
     (peer \<in> nodes \<longrightarrow>
        (\<exists>ss r ss'. handle_incoming_push L me (chunk_size L) ss = (r, ss', del) \<and> tx ss = [] \<and>
           prefix (rx ss) (tx sc') \<and> prefix (rx sc) (tx ss')))"

definition finish_task :: "nat \<Rightarrow> upload_outcome \<Rightarrow> incoming_push list \<Rightarrow> node \<Rightarrow> node" where
  "finish_task i outcome del n =
     (let t = running n ! i in
      n\<lparr>running := without i (running n),
        pl := upload_release (pl n),
        internal_ch := (case upload_report (clock n) outcome t of
            None \<Rightarrow> internal_ch n | Some m \<Rightarrow> chan_try_send m (internal_ch n)),
        deliveries := deliveries n @ List.map (Pair (task_peer t)) del,
        acked := (if outcome = UploadOk then insert (task_hash t, task_peer t, task_payload t) (acked n)
          else acked n)\<rparr>)"

section \<open>Steps\<close>

text \<open>
  \<open>feed\<close> says which messages the swarm task puts into the handler channel, \<open>me\<close> is the id of the
  node itself.
\<close>

inductive node_step :: "lib \<Rightarrow> (handler_message \<Rightarrow> bool) \<Rightarrow> peer_id set \<Rightarrow> peer_id \<Rightarrow> node \<Rightarrow> node \<Rightarrow> bool"
  for L feed nodes me where
  time: "clock n \<le> t \<Longrightarrow> node_step L feed nodes me n (n\<lparr>clock := t\<rparr>)"
| admit: "new_blob_admit L (clock n) bid hdr (bridge n) = (r, st) \<Longrightarrow>
    node_step L feed nodes me n (n\<lparr>bridge := st,
      uploads := uploads n @ (case r of Inl _ \<Rightarrow> [] | Inr u \<Rightarrow> [u])\<rparr>)"
| body: "i < length (uploads n) \<Longrightarrow> (\<forall>d. ev = Frame d \<longrightarrow> length d < 2 ^ 63) \<Longrightarrow>
    body_step L c ev (uploads n ! i) = Some (Inr u) \<Longrightarrow>
    node_step L feed nodes me n (n\<lparr>uploads := (uploads n)[i := u]\<rparr>)"
| body_failed: "i < length (uploads n) \<Longrightarrow> body_step L c ev (uploads n ! i) = Some (Inl code) \<Longrightarrow>
    node_step L feed nodes me n (drop_upload i n)"
| disconnected: "i < length (uploads n) \<Longrightarrow> node_step L feed nodes me n (drop_upload i n)"
| finish_failed: "i < length (uploads n) \<Longrightarrow> new_blob_finish L c (uploads n ! i) = Inl code \<Longrightarrow>
    node_step L feed nodes me n (drop_upload i n)"
| hand_over: "i < length (uploads n) \<Longrightarrow> new_blob_finish L c (uploads n ! i) = Inr blob \<Longrightarrow>
    new_blob_send (uploads n ! i) blob (bridge n) (admission_ch n) = Some (r, st, ch) \<Longrightarrow>
    node_step L feed nodes me n (n\<lparr>bridge := st, admission_ch := ch, uploads := without i (uploads n),
      handed := handed n @ (case r of Inl _ \<Rightarrow> [] | Inr _ \<Rightarrow> [blob])\<rparr>)"
| lookup: "get_blob_entry L (clock n) bid (bridge n) = (r, st) \<Longrightarrow>
    node_step L feed nodes me n (n\<lparr>bridge := st,
      lookups := lookups n @ (case r of Some (Inr x) \<Rightarrow> [x] | _ \<Rightarrow> [])\<rparr>)"
| lookup_reply: "i < length (lookups n) \<Longrightarrow> lookups n ! i = (bid, s) \<Longrightarrow>
    get_blob_reply bid s (admission_ch n) = Some (r, ch) \<Longrightarrow>
    node_step L feed nodes me n (n\<lparr>admission_ch := ch, lookups := without i (lookups n)\<rparr>)"
| bridge_recv: "chan_recv (bridge_ch n) = Some (m, ch) \<Longrightarrow>
    node_step L feed nodes me n (n\<lparr>bridge_ch := ch, bridge := bridge_message (clock n) m (bridge n)\<rparr>)"
| stale: "orders n ho po co \<Longrightarrow> handled (on_timer_stale (clock n) ho (pl n)) n = Some n' \<Longrightarrow>
    node_step L feed nodes me n n'"
| assign: "orders n ho po co \<Longrightarrow> handled (on_timer_assign (clock n) po co (pl n)) n = Some n' \<Longrightarrow>
    node_step L feed nodes me n n'"
| handler_recv: "orders n ho po co \<Longrightarrow> chan_recv (handler_ch n) = Some (m, ch) \<Longrightarrow>
    handled (on_handler_message L (clock n) po co m (pl n)) (n\<lparr>handler_ch := ch\<rparr>) = Some n' \<Longrightarrow>
    node_step L feed nodes me n n'"
| admission_recv: "orders n ho po co \<Longrightarrow> chan_recv (admission_ch n) = Some (m, ch) \<Longrightarrow>
    handled (on_admission (clock n) ho m (pl n)) (n\<lparr>admission_ch := ch\<rparr>) = Some n' \<Longrightarrow>
    node_step L feed nodes me n n'"
| internal_recv: "orders n ho po co \<Longrightarrow> chan_recv (internal_ch n) = Some (m, ch) \<Longrightarrow>
    on_internal (clock n) ho po co m (pl n) = Some r \<Longrightarrow>
    handled r (n\<lparr>internal_ch := ch\<rparr>) = Some n' \<Longrightarrow>
    node_step L feed nodes me n n'"
| feeds: "feed m \<Longrightarrow> chan_send m (handler_ch n) = Sent ch \<Longrightarrow>
    node_step L feed nodes me n (n\<lparr>handler_ch := ch\<rparr>)"
| swarm_recv: "chan_recv (swarm_ch n) = Some (m, ch) \<Longrightarrow>
    node_step L feed nodes me n (n\<lparr>swarm_ch := ch, asked := asked n @ on_swarm_message m\<rparr>)"
| task_end: "i < length (running n) \<Longrightarrow> t = running n ! i \<Longrightarrow> tx sc = [] \<Longrightarrow>
    push opened (task_peer t) (task_hash t) (task_payload t) sc = (r, sc', evs) \<Longrightarrow>
    served L nodes me (task_peer t) sc sc' del \<Longrightarrow>
    node_step L feed nodes me n (finish_task i (upload_outcome_of (Some r)) del n)"
| task_timeout: "i < length (running n) \<Longrightarrow>
    node_step L feed nodes me n (finish_task i (upload_outcome_of None) del n)"

text \<open>The states a client can reach from its start.\<close>

definition reachable_node :: "lib \<Rightarrow> (handler_message \<Rightarrow> bool) \<Rightarrow> peer_id set \<Rightarrow> peer_id \<Rightarrow> node \<Rightarrow> bool" where
  "reachable_node L feed nodes me n \<longleftrightarrow> reachable node_new (node_step L feed nodes me) n"

end
