(* ===== verification/NodeInvariants.thy ===== *)
theory NodeInvariants
  imports Node BridgeCorrect CoordinatorCorrect BlobTransferCorrect
begin

text \<open>
  The invariants of the running client. Each is a predicate on the state of the node,
  proved to be kept by every step, and interpreted as an \<open>invariant\<close> of the step relation at the
  end of the theory.
\<close>

section \<open>Lists without an element\<close>

lemma without_split:
  assumes "i < length xs"
  shows "\<exists>as bs. xs = as @ xs ! i # bs \<and> without i xs = as @ bs"
  using id_take_nth_drop[OF assms] by (auto simp: without_def)

lemma without_cases:
  assumes "i < length xs"
  obtains as x bs where "xs = as @ x # bs" "xs ! i = x" "without i xs = as @ bs" "i = length as"
  using assms by (metis add_diff_cancel_left' append_take_drop_id id_take_nth_drop length_take
      less_imp_le_nat min.absorb2 without_def)

lemma length_without: "i < length xs \<Longrightarrow> Suc (length (without i xs)) = length xs"
  by (simp add: without_def)

lemma set_without: "set (without i xs) \<subseteq> set xs"
  by (auto simp: without_def dest: in_set_takeD in_set_dropD)

section \<open>The effect of a handler\<close>

lemma release_many_add [simp]: "release_many a (release_many b s) = release_many (b + a) s"
  by (simp add: release_many_def)

lemma release_many_0 [simp]: "release_many 0 s = s"
  by (simp add: release_many_def)

lemma send_waiting_queued:
  "send_waiting m ch = Some ch' \<Longrightarrow> set (queued ch') \<subseteq> insert m (set (queued ch))"
  by (auto simp: send_waiting_def chan_send_def split: sent.splits if_splits)

lemma deliver_all_effect:
  assumes "deliver_all es n = Some n'"
  shows "pl n' = pl n \<and> clock n' = clock n \<and> uploads n' = uploads n \<and> lookups n' = lookups n \<and>
    admission_ch n' = admission_ch n \<and> handler_ch n' = handler_ch n \<and> internal_ch n' = internal_ch n \<and>
    handed n' = handed n \<and> asked n' = asked n \<and> deliveries n' = deliveries n \<and> acked n' = acked n \<and>
    running n' = running n @ spawned es \<and>
    bridge n' = (bridge n)\<lparr>admission_budget := release_many (sum_list (dropped es)) (admission_budget (bridge n))\<rparr> \<and>
    set (queued (bridge_ch n')) \<subseteq> set (queued (bridge_ch n)) \<union> {m. ToBridge m \<in> set es}"
  using assms
proof (induction es arbitrary: n)
  case (Cons e es)
  then obtain m where m: "deliver e n = Some m" "deliver_all es m = Some n'"
    by (auto split: Option.bind_splits)
  note IH = Cons.IH[OF m(2)]
  show ?case
  proof (cases e)
    case (ToBridge x)
    then obtain ch where "m = n\<lparr>bridge_ch := ch\<rparr>" "send_waiting x (bridge_ch n) = Some ch"
      using m(1) by (auto simp: deliver_def)
    with IH send_waiting_queued[of x "bridge_ch n" ch] ToBridge show ?thesis by auto
  next
    case (DropAllowance k)
    then show ?thesis using IH m(1) by (auto simp: deliver_def)
  qed (use IH m(1) in \<open>auto simp: deliver_def\<close>)
qed simp

lemma handled_effect:
  assumes "handled r n = Some n'"
  shows "pl n' = fst r" "clock n' = clock n" "uploads n' = uploads n" "lookups n' = lookups n"
    "admission_ch n' = admission_ch n" "handler_ch n' = handler_ch n" "internal_ch n' = internal_ch n"
    "handed n' = handed n" "asked n' = asked n" "deliveries n' = deliveries n" "acked n' = acked n"
    "running n' = running n @ spawned (snd r)"
    "bridge n' = (bridge n)\<lparr>admission_budget :=
       release_many (sum_list (dropped (snd r))) (admission_budget (bridge n))\<rparr>"
    "set (queued (bridge_ch n')) \<subseteq> set (queued (bridge_ch n)) \<union> {m. ToBridge m \<in> set (snd r)}"
  using deliver_all_effect[of "snd r" "n\<lparr>pl := fst r\<rparr>" n'] assms
  by (simp_all add: handled_def)

text \<open>While the bridge lives, it is told everything.\<close>

lemma send_waiting_kept:
  "send_waiting m ch = Some ch' \<Longrightarrow> rx_alive ch' = rx_alive ch \<and> set (queued ch) \<subseteq> set (queued ch') \<and>
     (rx_alive ch \<longrightarrow> m \<in> set (queued ch'))"
  by (auto simp: send_waiting_def chan_send_def split: sent.splits if_splits)

lemma deliver_all_told:
  assumes "deliver_all es n = Some n'"
  shows "rx_alive (bridge_ch n') = rx_alive (bridge_ch n) \<and>
    set (queued (bridge_ch n)) \<subseteq> set (queued (bridge_ch n')) \<and>
    (rx_alive (bridge_ch n) \<longrightarrow> {m. ToBridge m \<in> set es} \<subseteq> set (queued (bridge_ch n')))"
  using assms
proof (induction es arbitrary: n)
  case (Cons e es)
  then obtain k where k: "deliver e n = Some k" "deliver_all es k = Some n'"
    by (auto split: Option.bind_splits)
  have "rx_alive (bridge_ch k) = rx_alive (bridge_ch n) \<and> set (queued (bridge_ch n)) \<subseteq> set (queued (bridge_ch k)) \<and>
      (rx_alive (bridge_ch n) \<longrightarrow> (\<forall>m. e = ToBridge m \<longrightarrow> m \<in> set (queued (bridge_ch k))))"
    using k(1) send_waiting_kept by (cases e) (fastforce simp: deliver_def)+
  with Cons.IH[OF k(2)] show ?case by auto
qed simp

lemma handled_told:
  assumes "handled r n = Some n'"
  shows "set (queued (bridge_ch n)) \<subseteq> set (queued (bridge_ch n'))"
    and "rx_alive (bridge_ch n') \<Longrightarrow> ToBridge m \<in> set (snd r) \<Longrightarrow> m \<in> set (queued (bridge_ch n'))"
  using deliver_all_told[of "snd r" "n\<lparr>pl := fst r\<rparr>" n'] assms by (auto simp: handled_def)

lemma orders_distinct: "orders n ho po co \<Longrightarrow> distinct co"
  by (simp add: orders_def)

lemma orders_chunks: "orders n ho po co \<Longrightarrow> \<forall>b\<in>set (blobs (pl n)). dom (lb_chunks b) \<subseteq> set co"
  unfolding orders_def blobs_def by (cases "current_blob (pl n)") simp_all

section \<open>Upload permits\<close>

definition permits_inv :: "node \<Rightarrow> bool" where
  "permits_inv n \<longleftrightarrow> \<not> sem_closed (upload_allowance (pl n)) \<and>
     available_permits (upload_allowance (pl n)) + length (running n) = 20"

lemma permits_inv_handled:
  assumes "permits_inv n" and "upload_balance (pl n) r" and "handled r n = Some n'"
  shows "permits_inv n'"
  using assms(1,2) handled_effect[OF assms(3)] by (simp add: permits_inv_def upload_balance_def)

lemma permits_inv_finish:
  assumes "permits_inv n" and "i < length (running n)"
  shows "permits_inv (finish_task i outcome del n)"
  using assms length_without[OF assms(2)]
  by (simp add: permits_inv_def finish_task_def Let_def upload_release_def sem.avail_release)

lemma permits_inv_step:
  assumes "permits_inv n" and "node_step L feed nodes me n n'"
  shows "permits_inv n'"
  using assms(2)
proof (cases rule: node_step.cases)
  case (stale ho po co)
  then show ?thesis using permits_inv_handled[OF assms(1) upload_balance_stale] by blast
next
  case (assign ho po co)
  then show ?thesis
    using permits_inv_handled[OF assms(1) upload_balance_assign[OF orders_distinct]]
    unfolding on_timer_assign_def by blast
next
  case (handler_recv ho po co m ch)
  have "permits_inv (n\<lparr>handler_ch := ch\<rparr>)" using assms(1) by (simp add: permits_inv_def)
  moreover have "upload_balance (pl (n\<lparr>handler_ch := ch\<rparr>)) (on_handler_message L (clock n) po co m (pl n))"
    by (simp add: upload_balance_handler[OF orders_distinct[OF handler_recv(1)]])
  ultimately show ?thesis using handler_recv(3) by (rule permits_inv_handled)
next
  case (admission_recv ho po co m ch)
  have "permits_inv (n\<lparr>admission_ch := ch\<rparr>)" using assms(1) by (simp add: permits_inv_def)
  moreover have "upload_balance (pl (n\<lparr>admission_ch := ch\<rparr>)) (on_admission (clock n) ho m (pl n))"
    by (simp add: upload_balance_admission)
  ultimately show ?thesis using admission_recv(3) by (rule permits_inv_handled)
next
  case (internal_recv ho po co m ch r)
  have "permits_inv (n\<lparr>internal_ch := ch\<rparr>)" using assms(1) by (simp add: permits_inv_def)
  moreover have "upload_balance (pl (n\<lparr>internal_ch := ch\<rparr>)) r"
    by (simp add: upload_balance_internal[OF orders_distinct[OF internal_recv(1)] internal_recv(3)])
  ultimately show ?thesis using internal_recv(4) by (rule permits_inv_handled)
qed (use assms(1) permits_inv_finish in \<open>auto simp: permits_inv_def drop_upload_def\<close>)

end
