(* ===== verification/NodeIds.thy ===== *)
theory NodeIds
  imports NodeInvariants
begin

text \<open>
  The bridge's side of the running client: every upload in progress owns its id in the status
  table, and an id that was handed over is never free again.
\<close>

definition upload_ok :: "lib \<Rightarrow> upload \<Rightarrow> bool" where
  "upload_ok L u \<longleftrightarrow> (\<exists>seen. upload_inv L seen u) \<and>
     magic_type_id L (up_id u) = Some (adm_id (up_admission u)) \<and> \<not> adm_committed (up_admission u)"

definition canonical :: "lib \<Rightarrow> admitted_blob \<Rightarrow> blob_id" where
  "canonical L a = the (magic_type_id L (ab_id a))"

text \<open>The ids in use: those of the uploads in progress and those of the blobs handed over.\<close>

definition claimed :: "lib \<Rightarrow> upload list \<Rightarrow> admitted_blob list \<Rightarrow> blob_id list" where
  "claimed L us as = List.map (\<lambda>u. adm_id (up_admission u)) us @ List.map (canonical L) as"

definition ids_inv :: "lib \<Rightarrow> node \<Rightarrow> bool" where
  "ids_inv L n \<longleftrightarrow>
     (\<forall>u\<in>set (uploads n). upload_ok L u) \<and>
     (\<forall>a\<in>set (handed n). admitted_ok L a \<and> magic_type_id L (ab_id a) \<noteq> None) \<and>
     distinct (claimed L (uploads n) (handed n)) \<and>
     set (claimed L (uploads n) (handed n)) \<subseteq> dom (status_map (bridge n))"

lemma ids_inv_frame:
  assumes "ids_inv L n" and "uploads n' = uploads n" "handed n' = handed n"
    and "dom (status_map (bridge n)) \<subseteq> dom (status_map (bridge n'))"
  shows "ids_inv L n'"
  using assms(1) subset_trans[OF _ assms(4), of "set (claimed L (uploads n) (handed n))"]
  by (simp add: ids_inv_def assms(2,3))

lemma ids_inv_handled: "ids_inv L n \<Longrightarrow> handled r n = Some n' \<Longrightarrow> ids_inv L n'"
  using ids_inv_frame[of L n n'] handled_effect(3,8,13)[of r n n'] by simp

lemma body_step_upload_ok:
  assumes "upload_ok L u" and "\<forall>d. ev = Frame d \<longrightarrow> length d < 2 ^ 63" and "body_step L c ev u = Some (Inr v)"
  shows "upload_ok L v"
proof -
  obtain seen where inv: "upload_inv L seen u" using assms(1) by (auto simp: upload_ok_def)
  obtain d where d: "ev = Frame d" using assms(3) by (cases ev) (auto simp: body_step_def)
  have "upload_inv L (seen @ d) v" using body_step_frame[OF inv, of d c] assms(2,3) d by auto
  with assms(1) body_step_same_request[OF assms(3)] show ?thesis
    by (auto simp: upload_ok_def same_request_def)
qed

lemma ids_inv_admit:
  assumes "ids_inv L n" and "0 < chunk_size L" and "new_blob_admit L now bid hdr (bridge n) = (r, st)"
  shows "ids_inv L (n\<lparr>bridge := st, uploads := uploads n @ (case r of Inl _ \<Rightarrow> [] | Inr u \<Rightarrow> [u])\<rparr>)"
proof (cases r)
  case (Inl code)
  then show ?thesis using assms upload.acquire_failed[of L now bid hdr "bridge n" code st]
    by (auto intro: ids_inv_frame)
next
  case (Inr u)
  have run: "new_blob_admit L now bid hdr (bridge n) = (Inr u, st)" using assms(3) Inr by simp
  from admitted_upload_inv[OF this assms(2)] have inv: "upload_inv L [] u" .
  from run obtain vid b where vid: "magic_type_id L bid = Some vid" "status_map (bridge n) vid = None"
    "adm_id (up_admission u) = vid" "\<not> adm_committed (up_admission u)" "up_id u = bid"
    "st = (bridge n)\<lparr>status_map := (status_map (bridge n))(vid \<mapsto> [pending_at now]), admission_budget := b\<rparr>"
    by (elim new_blob_admit_Inr) simp
  then have "upload_ok L u" using inv by (auto simp: upload_ok_def)
  moreover have "vid \<notin> set (claimed L (uploads n) (handed n))"
    using assms(1) vid(2) by (auto simp: ids_inv_def)
  ultimately show ?thesis using assms(1) Inr vid
    by (auto simp: ids_inv_def claimed_def)
qed

lemma ids_inv_body:
  assumes "ids_inv L n" and "i < length (uploads n)" and "\<forall>d. ev = Frame d \<longrightarrow> length d < 2 ^ 63"
    and "body_step L c ev (uploads n ! i) = Some (Inr u)"
  shows "ids_inv L (n\<lparr>uploads := (uploads n)[i := u]\<rparr>)"
proof -
  have "upload_ok L (uploads n ! i)" using assms(1,2) by (simp add: ids_inv_def)
  from body_step_upload_ok[OF this assms(3,4)] have ok: "upload_ok L u" .
  have "up_admission u = up_admission (uploads n ! i)"
    using body_step_same_request[OF assms(4)] by (simp add: same_request_def)
  then have "List.map (\<lambda>u. adm_id (up_admission u)) ((uploads n)[i := u]) =
      List.map (\<lambda>u. adm_id (up_admission u)) (uploads n)"
    using assms(2) by (simp add: map_update list_update_same_conv)
  then have "claimed L ((uploads n)[i := u]) (handed n) = claimed L (uploads n) (handed n)"
    by (simp add: claimed_def)
  then show ?thesis using assms(1) ok set_update_subset_insert[of "uploads n" i u]
    by (auto simp: ids_inv_def)
qed

lemma dom_upload_drop:
  "\<not> adm_committed (up_admission u) \<Longrightarrow>
     dom (status_map (upload_drop u st)) = dom (status_map st) - {adm_id (up_admission u)}"
  by (auto simp: upload_drop_def admission_drop_def)

text \<open>Dropping an upload frees its own id only.\<close>

lemma ids_inv_drop:
  assumes "ids_inv L n" and "i < length (uploads n)"
  shows "ids_inv L (n\<lparr>bridge := upload_drop (uploads n ! i) (bridge n), uploads := without i (uploads n)\<rparr>)"
  using assms(2)
proof (cases rule: without_cases)
  case (1 as x bs)
  have "\<not> adm_committed (up_admission x)" using assms(1) 1 by (simp add: ids_inv_def upload_ok_def)
  note dom = dom_upload_drop[OF this, of "bridge n"]
  have dist: "distinct (claimed L (as @ x # bs) (handed n))"
    and sub: "set (claimed L (as @ x # bs) (handed n)) \<subseteq> dom (status_map (bridge n))"
    using assms(1) 1 by (simp_all add: ids_inv_def)
  have "set (claimed L (as @ bs) (handed n)) \<subseteq> dom (status_map (bridge n)) - {adm_id (up_admission x)}"
  proof
    fix i assume i: "i \<in> set (claimed L (as @ bs) (handed n))"
    with dist have "i \<noteq> adm_id (up_admission x)" by (auto simp: claimed_def image_iff)
    moreover have "i \<in> set (claimed L (as @ x # bs) (handed n))" using i by (auto simp: claimed_def)
    ultimately show "i \<in> dom (status_map (bridge n)) - {adm_id (up_admission x)}" using sub by blast
  qed
  moreover have "distinct (claimed L (as @ bs) (handed n))" using dist by (simp add: claimed_def)
  ultimately show ?thesis using assms(1) 1 dom by (simp add: ids_inv_def)
qed

lemma ids_inv_hand_over:
  assumes "ids_inv L n" and "i < length (uploads n)" and "new_blob_finish L c (uploads n ! i) = Inr blob"
    and "new_blob_send (uploads n ! i) blob (bridge n) (admission_ch n) = Some (r, st, ch)"
  shows "ids_inv L (n\<lparr>bridge := st, admission_ch := ch, uploads := without i (uploads n),
      handed := handed n @ (case r of Inl _ \<Rightarrow> [] | Inr _ \<Rightarrow> [blob])\<rparr>)"
proof (cases r)
  case (Inl code)
  then have "st = upload_drop (uploads n ! i) (bridge n)"
    using assms(4) by (auto simp: new_blob_send_def split: sent.splits)
  then show ?thesis using ids_inv_drop[OF assms(1,2)] Inl by (auto intro: ids_inv_frame)
next
  case (Inr res)
  then have st: "st = bridge n"
    using assms(4) by (auto simp: new_blob_send_def split: sent.splits)
  from assms(2) show ?thesis
  proof (cases rule: without_cases)
    case (1 as x bs)
    have ok: "upload_ok L x" using assms(1) 1 by (simp add: ids_inv_def)
    then obtain seen where "upload_inv L seen x" by (auto simp: upload_ok_def)
    from new_blob_finish_Inr[OF _ this, of c blob] assms(3) 1
    have blob: "ab_id blob = up_id x" "admitted_ok L blob"
      by (auto simp: admitted_ok_def hashed_def)
    then have "canonical L blob = adm_id (up_admission x)" "magic_type_id L (ab_id blob) \<noteq> None"
      using ok by (simp_all add: canonical_def upload_ok_def)
    then show ?thesis using assms(1) 1 Inr st blob
      by (auto simp: ids_inv_def claimed_def)
  qed
qed

lemma dom_get_blob_entry:
  "get_blob_entry L now bid st = (r, st') \<Longrightarrow> dom (status_map st) \<subseteq> dom (status_map st')"
  by (auto simp: get_blob_entry_def split: option.splits)

lemma dom_bridge_message: "dom (status_map (bridge_message now m st)) = dom (status_map st)"
  by (cases m) (auto simp: bridge_message_def split: option.splits)

lemma ids_inv_step:
  assumes "ids_inv L n" and "0 < chunk_size L" and "node_step L feed nodes me n n'"
  shows "ids_inv L n'"
  using assms(3)
proof (cases rule: node_step.cases)
  case (time t)
  then show ?thesis using assms(1) by (auto intro: ids_inv_frame)
next
  case (admit bid hdr r st)
  then show ?thesis using ids_inv_admit[OF assms(1,2)] by blast
next
  case (body i ev c u)
  then show ?thesis using ids_inv_body[OF assms(1)] by blast
next
  case (body_failed i c ev code)
  then show ?thesis using ids_inv_drop[OF assms(1)] by (simp add: drop_upload_def)
next
  case (disconnected i)
  then show ?thesis using ids_inv_drop[OF assms(1)] by (simp add: drop_upload_def)
next
  case (finish_failed i c code)
  then show ?thesis using ids_inv_drop[OF assms(1)] by (simp add: drop_upload_def)
next
  case (hand_over i c blob r st ch)
  then show ?thesis using ids_inv_hand_over[OF assms(1)] by blast
next
  case (lookup bid r st)
  then show ?thesis using ids_inv_frame[OF assms(1)] dom_get_blob_entry by simp
next
  case (lookup_reply i bid s r ch)
  then show ?thesis using ids_inv_frame[OF assms(1)] by simp
next
  case (bridge_recv m ch)
  then show ?thesis using ids_inv_frame[OF assms(1)] by (simp add: dom_bridge_message)
next
  case (stale ho po co)
  then show ?thesis using ids_inv_handled[OF assms(1)] by blast
next
  case (assign ho po co)
  then show ?thesis using ids_inv_handled[OF assms(1)] by blast
next
  case (handler_recv ho po co m ch)
  have "ids_inv L (n\<lparr>handler_ch := ch\<rparr>)" using ids_inv_frame[OF assms(1)] by simp
  then show ?thesis using ids_inv_handled handler_recv(3) by blast
next
  case (admission_recv ho po co m ch)
  have "ids_inv L (n\<lparr>admission_ch := ch\<rparr>)" using ids_inv_frame[OF assms(1)] by simp
  then show ?thesis using ids_inv_handled admission_recv(3) by blast
next
  case (internal_recv ho po co m ch r)
  have "ids_inv L (n\<lparr>internal_ch := ch\<rparr>)" using ids_inv_frame[OF assms(1)] by simp
  then show ?thesis using ids_inv_handled internal_recv(4) by blast
next
  case (feeds m ch)
  then show ?thesis using ids_inv_frame[OF assms(1)] by simp
next
  case (swarm_recv m ch)
  then show ?thesis using ids_inv_frame[OF assms(1)] by simp
next
  case (task_end i t sc opened r sc' evs del)
  then show ?thesis using ids_inv_frame[OF assms(1)] by (simp add: finish_task_def Let_def)
next
  case (task_timeout i del)
  then show ?thesis using ids_inv_frame[OF assms(1)] by (simp add: finish_task_def Let_def)
qed

end
