(* ===== verification/NodeBlobs.thy ===== *)
theory NodeBlobs
  imports NodeIds
begin

text \<open>
  The coordinator's side of the running client: the blobs handed over are finished, in the
  pipeline or queued, in this order; whatever is finished was acknowledged chunk by chunk; the
  admission budget is shared out among the uploads, the queue and the pipeline.
\<close>

section \<open>Definitions\<close>

definition new_blobs :: "to_pipeline list \<Rightarrow> admitted_blob list" where
  "new_blobs q = List.map_filter (\<lambda>m. case m of NewBlob b \<Rightarrow> Some b | GetBlob _ \<Rightarrow> None) q"

lemma new_blobs_simps [simp]:
  "new_blobs [] = []" "new_blobs (NewBlob b # q) = b # new_blobs q" "new_blobs (GetBlob i # q) = new_blobs q"
  "new_blobs (p @ q) = new_blobs p @ new_blobs q"
  by (simp_all add: new_blobs_def map_filter_def)

text \<open>Every chunk of the blob has an acknowledged upload.\<close>

definition acked_blob :: "(hash \<times> peer_id \<times> bytes) set \<Rightarrow> admitted_blob \<Rightarrow> bool" where
  "acked_blob acks a \<longleftrightarrow> (\<forall>h\<in>fst ` set (ab_chunks a). \<exists>p d. (h, p, d) \<in> acks)"

text \<open>The statuses of the table: pending, or finalized for an id in \<open>ids\<close>.\<close>

definition statuses_ok :: "blob_id set \<Rightarrow> bridge_state \<Rightarrow> bool" where
  "statuses_ok ids st \<longleftrightarrow>
     (\<forall>i l s. status_map st i = Some l \<longrightarrow> s \<in> set l \<longrightarrow>
        ts_status s = Pending \<or> (ts_status s = Finalized \<and> i \<in> ids))"

lemma statuses_ok_mono:
  "statuses_ok ids st \<Longrightarrow> ids \<subseteq> ids' \<Longrightarrow> status_map st' = status_map st \<Longrightarrow> statuses_ok ids' st'"
  unfolding statuses_ok_def by (metis subsetD)

text \<open>What an acknowledgement is evidence of.\<close>

definition evidence :: "lib \<Rightarrow> peer_id set \<Rightarrow> peer_id \<Rightarrow> node \<Rightarrow> bool" where
  "evidence L nodes me n \<longleftrightarrow>
     (\<forall>h p d. (h, p, d) \<in> acked n \<longrightarrow> blake3 L d = h \<and>
        (p \<in> nodes \<longrightarrow> (p, \<lparr>push_peer = me, push_hash = h, push_data = d\<rparr>) \<in> set (deliveries n)))"

text \<open>The permits of the admission budget that are held, for the blobs in the pipeline.\<close>

definition budget_held :: "admitted_blob list \<Rightarrow> node \<Rightarrow> nat" where
  "budget_held rest n =
     sum_list (List.map up_allowance (uploads n)) + sum_list (List.map ab_allowance rest) +
     sum_list (List.map ab_allowance (new_blobs (queued (admission_ch n))))"

definition budget_inv :: "admitted_blob list \<Rightarrow> node \<Rightarrow> bool" where
  "budget_inv rest n \<longleftrightarrow>
     available_permits (admission_budget (bridge n)) + budget_held rest n = TOTAL_CHUNK_BUDGET"

text \<open>
  The invariant around the pipeline, for the finished blobs \<open>fin\<close> and the blobs \<open>rest\<close> that the
  pipeline holds.
\<close>

definition around :: "lib \<Rightarrow> peer_id set \<Rightarrow> peer_id \<Rightarrow> admitted_blob list \<Rightarrow> admitted_blob list \<Rightarrow> node \<Rightarrow> bool" where
  "around L nodes me fin rest n \<longleftrightarrow>
     handed n = fin @ rest @ new_blobs (queued (admission_ch n)) \<and>
     (\<forall>a\<in>set fin. acked_blob (acked n) a) \<and>
     (\<forall>m\<in>set (queued (internal_ch n)). message_ok (acked n) m) \<and>
     (\<forall>t\<in>set (running n). blake3 L (task_payload t) = task_hash t) \<and>
     (\<forall>m\<in>set (queued (bridge_ch n)). \<exists>a\<in>set fin. m = UpdateStatus (ab_id a) Finalized) \<and>
     statuses_ok (ab_id ` set fin) (bridge n) \<and>
     evidence L nodes me n \<and> budget_inv rest n"

definition blobs_inv :: "lib \<Rightarrow> peer_id set \<Rightarrow> peer_id \<Rightarrow> node \<Rightarrow> bool" where
  "blobs_inv L nodes me n \<longleftrightarrow>
     (\<exists>fin rest. around L nodes me fin rest n \<and> pl_inv L (acked n) rest (pl n))"

text \<open>
  The invariant after a step from a state with the accepted blobs \<open>hs\<close> and the finished blobs
  \<open>fin\<close>: at most one more blob is finished, and then none is accepted in that step and the bridge
  is told, if it lives.
\<close>

definition blobs_next :: "lib \<Rightarrow> peer_id set \<Rightarrow> peer_id \<Rightarrow> admitted_blob list \<Rightarrow> admitted_blob list \<Rightarrow> node \<Rightarrow> bool" where
  "blobs_next L nodes me hs fin n \<longleftrightarrow>
     (\<exists>fin' rest. around L nodes me fin' rest n \<and> pl_inv L (acked n) rest (pl n) \<and>
        (fin' = fin \<or> (\<exists>a. fin' = fin @ [a] \<and> handed n = hs \<and>
          (rx_alive (bridge_ch n) \<longrightarrow> UpdateStatus (ab_id a) Finalized \<in> set (queued (bridge_ch n))))))"

lemma blobs_next_inv: "blobs_next L nodes me hs fin n \<Longrightarrow> blobs_inv L nodes me n"
  by (auto simp: blobs_next_def blobs_inv_def)

section \<open>The results of the handlers\<close>

text \<open>The blobs a handler finished and what it leaves; at most one blob per handler.\<close>

definition result_ok :: "lib \<Rightarrow> (hash \<times> peer_id \<times> bytes) set \<Rightarrow> admitted_blob list \<Rightarrow> admitted_blob list
    \<Rightarrow> pipeline \<times> emission list \<Rightarrow> bool" where
  "result_ok L acks fin rest r \<longleftrightarrow>
     pl_inv L acks rest (fst r) \<and> reported (snd r) = List.map ab_id fin \<and>
     dropped (snd r) = List.map ab_allowance fin \<and> (\<forall>a\<in>set fin. acked_blob acks a) \<and>
     (\<forall>t\<in>set (spawned (snd r)). blake3 L (task_payload t) = task_hash t) \<and>
     (\<forall>m. ToBridge m \<in> set (snd r) \<longrightarrow> (\<exists>a\<in>set fin. m = UpdateStatus (ab_id a) Finalized))"

text \<open>The bridge hears of finalized blobs only.\<close>

definition only_final :: "emission list \<Rightarrow> bool" where
  "only_final es \<longleftrightarrow> (\<forall>m. ToBridge m \<in> set es \<longrightarrow> (\<exists>i. m = UpdateStatus i Finalized))"

lemma only_final_simps [simp]:
  "only_final []" "only_final (Spawn t # es) = only_final es" "only_final (ToSwarm m # es) = only_final es"
  "only_final (DropAllowance k # es) = only_final es"
  "only_final (ToBridge (UpdateStatus i Finalized) # es) = only_final es"
  "only_final (es @ fs) \<longleftrightarrow> only_final es \<and> only_final fs" "only_final (List.map Spawn ts)"
  by (auto simp: only_final_def)

lemma only_final_request [simp]: "only_final (snd (request_storage_permits now po q))"
  by (simp add: request_storage_permits_def Let_def)

lemma only_final_begin [simp]: "only_final (snd (begin_next_blob now po q))"
  by (auto simp: begin_next_blob_def split: list.splits)

lemma only_final_assign [simp]: "only_final (snd (assign_chunks now po co q))"
  by (auto simp: assign_chunks_def Let_def split: option.splits prod.splits)

lemma only_final_stale: "only_final (snd (on_timer_stale now po q))"
  by (simp add: on_timer_stale_def Let_def)

lemma only_final_handler: "only_final (snd (on_handler_message L now po co m q))"
  by (auto simp: on_handler_message_def Let_def split: handler_message.splits response.splits)

lemma only_final_admission: "only_final (snd (on_admission now po m q))"
  by (auto simp: on_admission_def split: to_pipeline.splits)

lemma only_final_internal:
  assumes "on_internal now ho po co m q = Some r"
  shows "only_final (snd r)"
proof -
  obtain h s t where m: "m = UpdateChunkStatus h s t" by (cases m)
  from assms show ?thesis unfolding m by (cases rule: on_internal_cases) simp_all
qed

lemma reported_iff: "i \<in> set (reported es) \<longleftrightarrow> ToBridge (UpdateStatus i Finalized) \<in> set es"
proof (induction es)
  case (Cons e es)
  show ?case
  proof (cases e)
    case (ToBridge m)
    then show ?thesis using Cons
      by (cases m; cases "\<exists>j. m = UpdateStatus j Finalized")
        (auto simp: reported_def map_filter_def split: status.splits)
  qed (use Cons in simp_all)
qed simp

lemma result_ok_keeps:
  assumes "keeps_blobs L acks rest r" and "only_final (snd r)"
  shows "result_ok L acks [] rest r"
proof -
  have "\<not> ToBridge m \<in> set (snd r)" for m
  proof
    assume "ToBridge m \<in> set (snd r)"
    with assms(2) obtain i where "ToBridge (UpdateStatus i Finalized) \<in> set (snd r)"
      by (auto simp: only_final_def)
    then show False using assms(1) reported_iff[of i "snd r"] by (simp add: keeps_blobs_def)
  qed
  then show ?thesis using assms(1) by (simp add: result_ok_def keeps_blobs_def)
qed

lemma result_ok_reports:
  assumes "reports_blob L acks rest r" and "only_final (snd r)"
  shows "\<exists>a rest'. rest = a # rest' \<and> result_ok L acks [a] rest' r"
proof -
  obtain a rest' where a: "rest = a # rest'" "pl_inv L acks rest' (fst r)" "reported (snd r) = [ab_id a]"
    "dropped (snd r) = [ab_allowance a]" "\<forall>h\<in>fst ` set (ab_chunks a). \<exists>p d. (h, p, d) \<in> acks"
    "\<forall>t\<in>set (spawned (snd r)). blake3 L (task_payload t) = task_hash t"
    using assms(1) by (auto simp: reports_blob_def)
  have "m = UpdateStatus (ab_id a) Finalized" if m: "ToBridge m \<in> set (snd r)" for m
  proof -
    obtain i where i: "m = UpdateStatus i Finalized" using assms(2) m by (auto simp: only_final_def)
    then have "i \<in> set (reported (snd r))" using m reported_iff by blast
    then show ?thesis using a(3) i by simp
  qed
  then have "result_ok L acks [a] rest' r" using a by (simp add: result_ok_def acked_blob_def)
  with a(1) show ?thesis by blast
qed

section \<open>The steps of the coordinator\<close>

lemma budget_release:
  "available_permits (release_many k s) = available_permits s + k"
  by (rule sem.avail_release)

text \<open>Running a handler: what it finishes moves from the pipeline to the finished blobs.\<close>

lemma around_handled:
  assumes "around L nodes me dn (fin @ rest) n" and "result_ok L (acked n) fin rest r"
    and "handled r n = Some n'"
  shows "around L nodes me (dn @ fin) rest n' \<and> pl_inv L (acked n') rest (pl n')"
proof -
  note eff = handled_effect[OF assms(3)]
  have "\<exists>a\<in>set (dn @ fin). m = UpdateStatus (ab_id a) Finalized" if "m \<in> set (queued (bridge_ch n'))" for m
  proof -
    from that eff(14) have "m \<in> set (queued (bridge_ch n)) \<or> ToBridge m \<in> set (snd r)" by blast
    then show ?thesis using assms(1,2) by (auto simp: around_def result_ok_def)
  qed
  moreover have "statuses_ok (ab_id ` set (dn @ fin)) (bridge n')"
  proof (rule statuses_ok_mono)
    show "statuses_ok (ab_id ` set dn) (bridge n)" using assms(1) by (simp add: around_def)
  qed (auto simp: eff(13))
  moreover have "evidence L nodes me n'" using assms(1) eff by (simp add: around_def evidence_def)
  moreover have "budget_inv rest n'"
    using assms(1,2) eff
    by (simp add: around_def budget_inv_def budget_held_def result_ok_def budget_release)
  ultimately show ?thesis using assms(1,2) eff
    by (auto simp: around_def result_ok_def)
qed

lemma blobs_next_result:
  assumes "around L nodes me dn (fin @ rest) n" and "result_ok L (acked n) fin rest r"
    and "handled r n = Some n'" and "fin = [] \<or> fin = [a]"
  shows "blobs_next L nodes me (handed n) dn n'"
proof -
  have "UpdateStatus (ab_id a) Finalized \<in> set (queued (bridge_ch n'))" if "fin = [a]" "rx_alive (bridge_ch n')"
  proof -
    have "ab_id a \<in> set (reported (snd r))" using assms(2) that(1) by (simp add: result_ok_def)
    then show ?thesis using handled_told(2)[OF assms(3) that(2)] by (simp add: reported_iff)
  qed
  then have "dn @ fin = dn \<or> (\<exists>a. dn @ fin = dn @ [a] \<and> handed n' = handed n \<and>
      (rx_alive (bridge_ch n') \<longrightarrow> UpdateStatus (ab_id a) Finalized \<in> set (queued (bridge_ch n'))))"
    using assms(4) handled_effect(8)[OF assms(3)] by auto
  then show ?thesis using around_handled[OF assms(1-3)] unfolding blobs_next_def by blast
qed

lemma blobs_next_keeps:
  assumes "around L nodes me dn rest n" and "keeps_blobs L (acked n) rest r" and "only_final (snd r)"
    and "handled r n = Some n'"
  shows "blobs_next L nodes me (handed n) dn n'"
  using blobs_next_result[of L nodes me dn "[]" rest n r n'] result_ok_keeps[OF assms(2,3)] assms(1,4)
  by simp

lemma keeps_blobs_stale: "pl_inv L acks rest q \<Longrightarrow> keeps_blobs L acks rest (on_timer_stale now po q)"
  using keeps_blobs_request keeps_blobs_silent
  by (simp add: on_timer_stale_def Let_def pl_inv_cong[of "q\<lparr>storage_provider_hints := m\<rparr>" q for m])

lemma keeps_blobs_handler:
  assumes "pl_inv L acks rest q" and "distinct co" and "\<not> sem_closed (upload_allowance q)"
  shows "keeps_blobs L acks rest (on_handler_message L now po co m q)"
proof -
  have "keeps_blobs L acks rest (assign_chunks now po co (q\<lparr>storage_permits := x\<rparr>))" for x
    using assms pl_inv_cong[of "q\<lparr>storage_permits := x\<rparr>" q] by (intro keeps_blobs_assign) simp_all
  moreover have "keeps_blobs L acks rest (q\<lparr>storage_provider_hints := x\<rparr>, [])" for x
    using assms(1) pl_inv_cong[of "q\<lparr>storage_provider_hints := x\<rparr>" q] by (intro keeps_blobs_silent) simp
  ultimately show ?thesis using assms(1) keeps_blobs_silent
    by (auto simp: on_handler_message_def Let_def split: handler_message.splits response.splits)
qed

lemma around_handler_ch [simp]:
  "around L nodes me dn rest (n\<lparr>handler_ch := ch\<rparr>) = around L nodes me dn rest n"
  by (simp add: around_def evidence_def budget_inv_def budget_held_def)

lemma around_internal_recv:
  "around L nodes me dn rest n \<Longrightarrow> chan_recv (internal_ch n) = Some (m, ch) \<Longrightarrow>
     around L nodes me dn rest (n\<lparr>internal_ch := ch\<rparr>) \<and> message_ok (acked n) m"
  using chan.get_contents[of "internal_ch n" m ch]
  by (auto simp: around_def evidence_def budget_inv_def budget_held_def)

text \<open>The state of the node in which a handler of the coordinator runs.\<close>

definition closed_uploads :: "node \<Rightarrow> bool" where
  "closed_uploads n \<longleftrightarrow> sem_closed (upload_allowance (pl n))"

lemma blobs_next_admission:
  assumes inv: "around L nodes me dn rest n" "pl_inv L (acked n) rest (pl n)"
    and ok: "\<forall>a\<in>set (handed n). admitted_ok L a"
    and recv: "chan_recv (admission_ch n) = Some (m, ch)"
    and run: "handled (on_admission now ho m (pl n)) (n\<lparr>admission_ch := ch\<rparr>) = Some n'"
  shows "blobs_next L nodes me (handed n) dn n'"
proof -
  have q: "queued (admission_ch n) = m # queued ch" using recv by (rule chan.get_contents)
  let ?n = "n\<lparr>admission_ch := ch\<rparr>"
  show ?thesis
  proof (cases m)
    case (GetBlob bid)
    have "around L nodes me dn rest ?n"
      using inv(1) q GetBlob by (simp add: around_def evidence_def budget_inv_def budget_held_def)
    moreover have "keeps_blobs L (acked ?n) rest (on_admission now ho m (pl n))"
      using inv(2) pl_inv_cong[of "pl n\<lparr>remote_blobs := x\<rparr>" "pl n" for x] GetBlob
      by (auto simp: on_admission_def intro: keeps_blobs_silent)
    ultimately show ?thesis using blobs_next_keeps[OF _ _ only_final_admission run] by simp
  next
    case (NewBlob a)
    have "around L nodes me dn (rest @ [a]) ?n"
      using inv(1) q NewBlob by (simp add: around_def evidence_def budget_inv_def budget_held_def)
    moreover have "admitted_ok L a" using ok inv(1) q NewBlob by (simp add: around_def)
    then have "keeps_blobs L (acked ?n) (rest @ [a]) (on_admission now ho m (pl n))"
      using keeps_blobs_add[OF inv(2)] NewBlob by (simp add: on_admission_def)
    ultimately show ?thesis using blobs_next_keeps[OF _ _ only_final_admission run] by simp
  qed
qed

lemma blobs_next_internal:
  assumes inv: "around L nodes me dn rest n" "pl_inv L (acked n) rest (pl n)"
    and ord: "orders n ho po co" and opn: "\<not> sem_closed (upload_allowance (pl n))"
    and recv: "chan_recv (internal_ch n) = Some (m, ch)"
    and res: "on_internal now ho po co m (pl n) = Some r" "handled r (n\<lparr>internal_ch := ch\<rparr>) = Some n'"
  shows "blobs_next L nodes me (handed n) dn n'"
proof -
  from around_internal_recv[OF inv(1) recv] have a: "around L nodes me dn rest (n\<lparr>internal_ch := ch\<rparr>)"
    and m: "message_ok (acked n) m" by simp_all
  from on_internal_keeps[OF inv(2) m orders_distinct[OF ord] orders_chunks[OF ord] opn res(1)]
  show ?thesis
  proof
    assume "keeps_blobs L (acked n) rest r"
    then have "keeps_blobs L (acked (n\<lparr>internal_ch := ch\<rparr>)) rest r" by simp
    then show ?thesis using blobs_next_keeps[OF a _ only_final_internal[OF res(1)] res(2)] by simp
  next
    assume "reports_blob L (acked n) rest r"
    from result_ok_reports[OF this only_final_internal[OF res(1)]] obtain b rest' where
      "rest = b # rest'" "result_ok L (acked n) [b] rest' r" by blast
    then show ?thesis using blobs_next_result[of L nodes me dn "[b]" rest' "n\<lparr>internal_ch := ch\<rparr>" r n' b] a res(2)
      by simp
  qed
qed

section \<open>The steps of the bridge\<close>

lemma statuses_ok_insert:
  "statuses_ok ids st \<Longrightarrow> statuses_ok ids (st\<lparr>status_map := (status_map st)(i \<mapsto> [pending_at now])\<rparr>)"
  by (simp add: statuses_ok_def pending_at_def)

lemma statuses_ok_admit:
  assumes "statuses_ok ids st" and "new_blob_admit L now bid hdr st = (r, st')"
  shows "statuses_ok ids st'"
proof (cases r)
  case (Inl code)
  then show ?thesis using assms upload.acquire_failed by metis
next
  case (Inr u)
  then obtain vid b where st': "st' = st\<lparr>status_map := (status_map st)(vid \<mapsto> [pending_at now]), admission_budget := b\<rparr>"
    using assms(2) by (auto elim: new_blob_admit_Inr)
  show ?thesis
    by (rule statuses_ok_mono[OF statuses_ok_insert[OF assms(1)] subset_refl]) (simp add: st')
qed

lemma statuses_ok_upload_drop: "statuses_ok ids st \<Longrightarrow> statuses_ok ids (upload_drop u st)"
  by (simp add: statuses_ok_def upload_drop_def admission_drop_def)

lemma statuses_ok_entry:
  "statuses_ok ids st \<Longrightarrow> get_blob_entry L now bid st = (r, st') \<Longrightarrow> statuses_ok ids st'"
  by (auto simp: get_blob_entry_def statuses_ok_insert split: option.splits)

lemma statuses_ok_message:
  "statuses_ok ids st \<Longrightarrow> i \<in> ids \<Longrightarrow> statuses_ok ids (bridge_message now (UpdateStatus i Finalized) st)"
  by (auto simp: statuses_ok_def bridge_message_def split: option.splits)

lemma budget_upload_drop:
  "available_permits (admission_budget (upload_drop u st)) =
     available_permits (admission_budget st) + up_allowance u"
  by (simp add: upload_drop_def admission_drop_def sem.avail_release)

lemma budget_entry:
  "get_blob_entry L now bid st = (r, st') \<Longrightarrow> admission_budget st' = admission_budget st"
  by (auto simp: get_blob_entry_def split: option.splits)

lemma budget_message [simp]: "admission_budget (bridge_message now m st) = admission_budget st"
  by (cases m) (auto simp: bridge_message_def split: option.splits)

text \<open>A step of the bridge changes the uploads, the table and the budget; the rest is framed.\<close>

lemma around_bridge:
  assumes "around L nodes me fin rest n"
    and "statuses_ok (ab_id ` set fin) st"
    and "available_permits (admission_budget st) + sum_list (List.map up_allowance us) =
      available_permits (admission_budget (bridge n)) + sum_list (List.map up_allowance (uploads n))"
  shows "around L nodes me fin rest (n\<lparr>bridge := st, uploads := us\<rparr>)"
  using assms by (simp add: around_def evidence_def budget_inv_def budget_held_def)

lemma around_admit:
  assumes "around L nodes me fin rest n" and "new_blob_admit L now bid hdr (bridge n) = (r, st)"
  shows "around L nodes me fin rest
    (n\<lparr>bridge := st, uploads := uploads n @ (case r of Inl _ \<Rightarrow> [] | Inr u \<Rightarrow> [u])\<rparr>)"
proof (cases r)
  case (Inl code)
  then have "st = bridge n" using assms(2) upload.acquire_failed by blast
  then show ?thesis using assms(1) Inl by simp
next
  case (Inr u)
  have ok: "statuses_ok (ab_id ` set fin) (bridge n)" using assms(1) by (simp add: around_def)
  from assms(2) Inr obtain m vid b where
    "try_acquire_many (div_ceil m (chunk_size L)) (admission_budget (bridge n)) = Some b"
    "up_allowance u = div_ceil m (chunk_size L)"
    "st = (bridge n)\<lparr>status_map := (status_map (bridge n))(vid \<mapsto> [pending_at now]), admission_budget := b\<rparr>"
    by (auto elim: new_blob_admit_Inr)
  moreover have "statuses_ok (ab_id ` set fin) st" using ok assms(2) by (rule statuses_ok_admit)
  ultimately show ?thesis using assms(1) Inr sem.acquire_Some
    by (intro around_bridge) auto
qed

lemma around_drop:
  assumes "around L nodes me fin rest n" and "i < length (uploads n)"
  shows "around L nodes me fin rest
    (n\<lparr>bridge := upload_drop (uploads n ! i) (bridge n), uploads := without i (uploads n)\<rparr>)"
  using assms(2)
proof (cases rule: without_cases)
  case (1 as x bs)
  show ?thesis
  proof (rule around_bridge[OF assms(1)])
    show "statuses_ok (ab_id ` set fin) (upload_drop (uploads n ! i) (bridge n))"
      using assms(1) statuses_ok_upload_drop by (simp add: around_def)
    show "available_permits (admission_budget (upload_drop (uploads n ! i) (bridge n))) +
        sum_list (List.map up_allowance (without i (uploads n))) =
        available_permits (admission_budget (bridge n)) + sum_list (List.map up_allowance (uploads n))"
      using 1(2,3) by (simp add: budget_upload_drop 1(1))
  qed
qed

lemma around_body:
  assumes "around L nodes me fin rest n" and "i < length (uploads n)"
    and "body_step L c ev (uploads n ! i) = Some (Inr u)"
  shows "around L nodes me fin rest (n\<lparr>uploads := (uploads n)[i := u]\<rparr>)"
proof -
  have "List.map up_allowance ((uploads n)[i := u]) = List.map up_allowance (uploads n)"
    using assms(2) body_step_same_request[OF assms(3)]
    by (simp add: map_update same_request_def list_update_same_conv)
  then show ?thesis using assms(1) by (simp add: around_def evidence_def budget_inv_def budget_held_def)
qed

lemma around_hand_over:
  assumes "around L nodes me fin rest n" and "i < length (uploads n)"
    and "new_blob_finish L c (uploads n ! i) = Inr blob"
    and "new_blob_send (uploads n ! i) blob (bridge n) (admission_ch n) = Some (r, st, ch)"
  shows "around L nodes me fin rest (n\<lparr>bridge := st, admission_ch := ch, uploads := without i (uploads n),
      handed := handed n @ (case r of Inl _ \<Rightarrow> [] | Inr _ \<Rightarrow> [blob])\<rparr>)"
proof (cases r)
  case (Inl code)
  then have "st = upload_drop (uploads n ! i) (bridge n)" "ch = admission_ch n"
    using assms(4) by (auto simp: new_blob_send_def split: sent.splits)
  then show ?thesis using around_drop[OF assms(1,2)] Inl by simp
next
  case (Inr res)
  then have st: "st = bridge n" and q: "queued ch = queued (admission_ch n) @ [NewBlob blob]"
    using assms(4) by (auto simp: new_blob_send_def chan.put_contents split: sent.splits)
  have "ab_allowance blob = up_allowance (uploads n ! i)"
    using assms(3) by (auto simp: new_blob_finish_def Let_def split: if_splits sum.splits option.splits)
  moreover from assms(2) have "sum_list (List.map up_allowance (uploads n)) =
      up_allowance (uploads n ! i) + sum_list (List.map up_allowance (without i (uploads n)))"
    by (cases rule: without_cases) simp
  ultimately show ?thesis using assms(1) Inr st q
    by (simp add: around_def evidence_def budget_inv_def budget_held_def)
qed

lemma around_reply:
  assumes "around L nodes me fin rest n" and "get_blob_reply bid s (admission_ch n) = Some (r, ch)"
  shows "around L nodes me fin rest (n\<lparr>admission_ch := ch, lookups := ls\<rparr>)"
proof -
  have "queued ch = queued (admission_ch n) \<or> queued ch = queued (admission_ch n) @ [GetBlob bid]"
    using assms(2) by (auto simp: get_blob_reply_def chan.put_contents split: status.splits sent.splits)
  then have "new_blobs (queued ch) = new_blobs (queued (admission_ch n))" by auto
  then show ?thesis using assms(1) by (simp add: around_def evidence_def budget_inv_def budget_held_def)
qed

lemma around_bridge_recv:
  assumes "around L nodes me fin rest n" and "chan_recv (bridge_ch n) = Some (m, ch)"
  shows "around L nodes me fin rest (n\<lparr>bridge_ch := ch, bridge := bridge_message now m (bridge n)\<rparr>)"
proof -
  have q: "queued (bridge_ch n) = m # queued ch" using assms(2) by (rule chan.get_contents)
  then obtain a where "a \<in> set fin" "m = UpdateStatus (ab_id a) Finalized"
    using assms(1) by (auto simp: around_def)
  then have "statuses_ok (ab_id ` set fin) (bridge_message now m (bridge n))"
    using assms(1) statuses_ok_message by (simp add: around_def)
  then show ?thesis using assms(1) q
    by (simp add: around_def evidence_def budget_inv_def budget_held_def)
qed

section \<open>The end of an upload task\<close>

lemma acked_blob_mono: "acked_blob acks a \<Longrightarrow> acks \<subseteq> acks' \<Longrightarrow> acked_blob acks' a"
  unfolding acked_blob_def by blast

lemma chan_try_send_set: "set (queued (chan_try_send m c)) \<subseteq> insert m (set (queued c))"
  by (auto simp: chan_try_send_queued)

text \<open>What a task may claim: an acknowledged upload is evidence for the set of acknowledgements.\<close>

lemma around_finish:
  assumes "around L nodes me fin rest n" and "i < length (running n)" and "t = running n ! i"
    and "outcome = UploadOk \<Longrightarrow> task_peer t \<in> nodes \<Longrightarrow>
      \<lparr>push_peer = me, push_hash = task_hash t, push_data = task_payload t\<rparr> \<in> set del"
  shows "around L nodes me fin rest (finish_task i outcome del n) \<and>
    acked n \<subseteq> acked (finish_task i outcome del n)"
proof -
  let ?n = "finish_task i outcome del n"
  have sub: "acked n \<subseteq> acked ?n" by (auto simp: finish_task_def Let_def)
  have t: "blake3 L (task_payload t) = task_hash t" using assms(1-3) by (simp add: around_def)
  have msg: "message_ok (acked ?n) m" if "upload_report (clock n) outcome t = Some m" for m
    using that by (cases outcome) (auto simp: upload_report_def finish_task_def Let_def assms(3))
  have "message_ok (acked ?n) m" if m: "m \<in> set (queued (internal_ch ?n))" for m
  proof -
    have "m \<in> set (queued (internal_ch n)) \<or> upload_report (clock n) outcome t = Some m"
      using m assms(3) chan_try_send_set[of _ "internal_ch n"]
      by (auto simp: finish_task_def Let_def split: option.splits)
    then show ?thesis using msg assms(1) message_ok_mono[OF _ sub] by (auto simp: around_def)
  qed
  moreover have "evidence L nodes me ?n"
    using assms(1,4) t by (auto simp: evidence_def around_def finish_task_def Let_def assms(3))
  moreover have "\<forall>a\<in>set fin. acked_blob (acked ?n) a"
    using assms(1) acked_blob_mono[OF _ sub] by (auto simp: around_def)
  moreover have "\<forall>u\<in>set (running ?n). blake3 L (task_payload u) = task_hash u"
    using assms(1) set_without[of i "running n"] by (auto simp: around_def finish_task_def Let_def)
  ultimately show ?thesis using assms(1) sub
    by (simp add: around_def budget_inv_def budget_held_def) (simp add: finish_task_def Let_def)
qed

lemma served_ack:
  assumes "push opened p (task_hash t) (task_payload t) sc = (r, sc', evs)" and "tx sc = []"
    and "served L nodes me p sc sc' del" and "upload_outcome_of (Some r) = UploadOk" and "p \<in> nodes"
    and "blake3_digests L" and "blake3 L (task_payload t) = task_hash t"
  shows "del = [\<lparr>push_peer = me, push_hash = task_hash t, push_data = task_payload t\<rparr>]"
proof -
  have r: "r = Inr ()" using assms(4) by (simp add: upload_outcome_of_def split: sum.splits)
  obtain ss q ss' where "handle_incoming_push L me (chunk_size L) ss = (q, ss', del)" "tx ss = []"
    "prefix (rx ss) (tx sc')" "prefix (rx sc) (tx ss')"
    using assms(3,5) by (auto simp: served_def)
  moreover have "wf_hash (task_hash t)" using assms(6,7) unfolding blake3_digests_def by metis
  ultimately show ?thesis using acked_push_delivered[of opened p] assms(1,2) r by blast
qed

lemma pl_inv_finish:
  assumes "pl_inv L (acked n) rest (pl n)" and "acked n \<subseteq> acked (finish_task i outcome del n)"
  shows "pl_inv L (acked (finish_task i outcome del n)) rest (pl (finish_task i outcome del n))"
proof -
  have "current_blob (pl (finish_task i outcome del n)) = current_blob (pl n)"
    "pending_local_blobs (pl (finish_task i outcome del n)) = pending_local_blobs (pl n)"
    by (simp_all add: finish_task_def Let_def upload_release_def)
  from pl_inv_cong[OF this] pl_inv_mono[OF assms] show ?thesis by simp
qed

end
