(* ===== verification/NodeCorrect.thy ===== *)
theory NodeCorrect
  imports NodeBlobs
begin

text \<open>
  The invariant of the running client, kept by every step, and the properties that follow for
  every reachable state.
\<close>

section \<open>The invariant\<close>

text \<open>The facts about the libraries: chunks are not empty, \<open>blake3\<close> digests have 32 bytes.\<close>

definition lib_ok :: "lib \<Rightarrow> bool" where
  "lib_ok L \<longleftrightarrow> 0 < chunk_size L \<and> blake3_digests L"

lemma blobs_next_step:
  assumes "around L nodes me fin rest n" and "pl_inv L (acked n) rest (pl n)" and "ids_inv L n" and "permits_inv n" and "blake3_digests L"
    and "node_step L feed nodes me n n'"
  shows "blobs_next L nodes me (handed n) fin n'"
proof -
  note inv = assms(1,2)
  have opn: "\<not> sem_closed (upload_allowance (pl n))" using assms(4) by (simp add: permits_inv_def)
  have goal: "blobs_next L nodes me (handed n) fin m"
    if "around L nodes me fin rest m" "pl m = pl n" "acked m = acked n" for m
    using that inv(2) by (auto simp: blobs_next_def)
  have task: "blobs_next L nodes me (handed n) fin (finish_task i outcome del n)"
    if "i < length (running n)" "outcome = UploadOk \<Longrightarrow> task_peer (running n ! i) \<in> nodes \<Longrightarrow>
      \<lparr>push_peer = me, push_hash = task_hash (running n ! i), push_data = task_payload (running n ! i)\<rparr> \<in> set del"
    for i outcome del
  proof -
    from around_finish[OF inv(1) that(1) refl, of outcome del] that(2)
    have "around L nodes me fin rest (finish_task i outcome del n)"
      "acked n \<subseteq> acked (finish_task i outcome del n)" by blast+
    with pl_inv_finish[OF inv(2)] show ?thesis unfolding blobs_next_def by blast
  qed
  from assms(6) show ?thesis
  proof (cases rule: node_step.cases)
    case (time t)
    show ?thesis unfolding time(1) using inv(1)
      by (intro goal) (simp_all add: around_def evidence_def budget_inv_def budget_held_def)
  next
    case (admit bid hdr r st)
    show ?thesis unfolding admit(1) using around_admit[OF inv(1) admit(2)] by (intro goal) simp_all
  next
    case (body i ev c u)
    show ?thesis unfolding body(1) using around_body[OF inv(1) body(2,4)] by (intro goal) simp_all
  next
    case (body_failed i c ev code)
    show ?thesis unfolding body_failed(1) drop_upload_def
      using around_drop[OF inv(1) body_failed(2)] by (intro goal) simp_all
  next
    case (disconnected i)
    show ?thesis unfolding disconnected(1) drop_upload_def
      using around_drop[OF inv(1) disconnected(2)] by (intro goal) simp_all
  next
    case (finish_failed i c code)
    show ?thesis unfolding finish_failed(1) drop_upload_def
      using around_drop[OF inv(1) finish_failed(2)] by (intro goal) simp_all
  next
    case (hand_over i c blob r st ch)
    show ?thesis unfolding hand_over(1)
      using around_hand_over[OF inv(1) hand_over(2-4)] by (intro goal) simp_all
  next
    case (lookup bid r st)
    have "around L nodes me fin rest (n\<lparr>bridge := st, uploads := uploads n\<rparr>)"
      using inv(1) statuses_ok_entry[OF _ lookup(2)] budget_entry[OF lookup(2)]
      by (intro around_bridge) (simp_all add: around_def)
    then show ?thesis unfolding lookup(1)
      by (intro goal) (simp_all add: around_def evidence_def budget_inv_def budget_held_def)
  next
    case (lookup_reply i bid s r ch)
    show ?thesis unfolding lookup_reply(1)
      using around_reply[OF inv(1) lookup_reply(4)] by (intro goal) simp_all
  next
    case (bridge_recv m ch)
    show ?thesis unfolding bridge_recv(1)
      using around_bridge_recv[OF inv(1) bridge_recv(2)] by (intro goal) simp_all
  next
    case (stale ho po co)
    then show ?thesis
      using blobs_next_keeps[OF inv(1) keeps_blobs_stale[OF inv(2)] only_final_stale] by blast
  next
    case (assign ho po co)
    have "keeps_blobs L (acked n) rest (on_timer_assign (clock n) po co (pl n))"
      unfolding on_timer_assign_def by (rule keeps_blobs_assign[OF inv(2) orders_distinct[OF assign(1)] opn])
    moreover have "only_final (snd (on_timer_assign (clock n) po co (pl n)))"
      by (simp add: on_timer_assign_def)
    ultimately show ?thesis using blobs_next_keeps[OF inv(1)] assign(2) by blast
  next
    case (handler_recv ho po co m ch)
    have "keeps_blobs L (acked (n\<lparr>handler_ch := ch\<rparr>)) rest (on_handler_message L (clock n) po co m (pl n))"
      using keeps_blobs_handler[OF inv(2) orders_distinct[OF handler_recv(1)] opn] by simp
    moreover have "around L nodes me fin rest (n\<lparr>handler_ch := ch\<rparr>)" using inv(1) by simp
    ultimately show ?thesis using blobs_next_keeps[OF _ _ only_final_handler handler_recv(3)] by simp
  next
    case (admission_recv ho po co m ch)
    have "\<forall>a\<in>set (handed n). admitted_ok L a" using assms(3) by (simp add: ids_inv_def)
    then show ?thesis using blobs_next_admission[OF inv] admission_recv(2,3) by blast
  next
    case (internal_recv ho po co m ch r)
    then show ?thesis using blobs_next_internal[OF inv _ opn] by blast
  next
    case (feeds m ch)
    show ?thesis unfolding feeds(1) using inv(1) by (intro goal) simp_all
  next
    case (swarm_recv m ch)
    show ?thesis unfolding swarm_recv(1) using inv(1)
      by (intro goal) (simp_all add: around_def evidence_def budget_inv_def budget_held_def)
  next
    case (task_end i t sc opened r sc' evs del)
    have "blake3 L (task_payload t) = task_hash t" using inv(1) task_end(2,3) by (simp add: around_def)
    from served_ack[OF task_end(5,4,6) _ _ assms(5) this] show ?thesis
      unfolding task_end(1) using task_end(2,3) by (intro task) simp_all
  next
    case (task_timeout i del)
    show ?thesis unfolding task_timeout(1) using task_timeout(2)
      by (intro task) (simp_all add: upload_outcome_of_def)
  qed
qed

lemma blobs_inv_step:
  assumes "blobs_inv L nodes me n" and "ids_inv L n" and "permits_inv n" and "blake3_digests L"
    and "node_step L feed nodes me n n'"
  shows "blobs_inv L nodes me n'"
  using assms(1) blobs_next_inv blobs_next_step[OF _ _ assms(2-5)] unfolding blobs_inv_def by metis

definition node_inv :: "lib \<Rightarrow> peer_id set \<Rightarrow> peer_id \<Rightarrow> node \<Rightarrow> bool" where
  "node_inv L nodes me n \<longleftrightarrow> permits_inv n \<and> (lib_ok L \<longrightarrow> ids_inv L n \<and> blobs_inv L nodes me n)"

lemma permits_inv_new: "permits_inv node_new"
  by (simp add: permits_inv_def node_new_def pipeline_new_def semaphore_new_def available_permits_def)

lemma ids_inv_new: "ids_inv L node_new"
  by (simp add: ids_inv_def node_new_def claimed_def)

lemma blobs_inv_new: "blobs_inv L nodes me node_new"
proof -
  have "around L nodes me [] [] node_new"
    by (simp add: around_def node_new_def channel_new_def statuses_ok_def bridge_state_new_def evidence_def
        budget_inv_def budget_held_def)
  moreover have "pl_inv L (acked node_new) [] (pl node_new)" by (simp add: node_new_def)
  ultimately show ?thesis unfolding blobs_inv_def by blast
qed

interpretation node: invariant node_new "node_step L feed nodes me" "node_inv L nodes me" for L feed nodes me
proof unfold_locales
  show "node_inv L nodes me node_new"
    by (simp add: node_inv_def permits_inv_new ids_inv_new blobs_inv_new)
next
  fix s t assume "node_inv L nodes me s" "node_step L feed nodes me s t"
  then show "node_inv L nodes me t"
    using permits_inv_step ids_inv_step blobs_inv_step by (simp add: node_inv_def lib_ok_def) blast
qed

lemma node_reachable: "reachable_node L feed nodes me n \<Longrightarrow> node_inv L nodes me n"
  unfolding reachable_node_def by (rule node.inv_reachable)

end
