(* ===== verification/SampleRun.thy ===== *)
theory SampleRun
  imports NodeCorrect
begin

text \<open>
  A run of a client from its start until a blob is finalized: the upload of two bytes, the
  permit of one storage provider, the push to it and the reports back to the bridge. The
  theorems about reachable states are applied to its last state.
\<close>

definition run_blob :: admitted_blob where
  "run_blob = \<lparr>ab_id = ''blob_a'', ab_root_hash = sample_hash, ab_merkle_tree = [sample_hash],
     ab_chunks = [(sample_hash, sample_data)], ab_allowance = 1\<rparr>"

definition run_upload :: "bytes \<Rightarrow> upload" where
  "run_upload buf = \<lparr>up_id = ''blob_a'', up_admission = \<lparr>adm_id = ''blob_a'', adm_committed = False\<rparr>,
     up_allowance = 1, up_declared = 2, up_num_chunks = 1, up_buf = buf, up_chunks = [],
     up_received = length buf\<rparr>"

definition run_chunk :: "chunk_upload_status \<Rightarrow> chunk" where
  "run_chunk s = \<lparr>ch_data = sample_data, ch_status = \<lparr>cs_at = Instant 0, cs_status = s\<rparr>\<rparr>"

definition run_local :: "chunk_upload_status \<Rightarrow> local_blob" where
  "run_local s = \<lparr>lb_id = ''blob_a'', lb_root_hash = sample_hash, lb_merkle_tree = [sample_hash],
     lb_chunks = [sample_hash \<mapsto> run_chunk s], lb_allowance = 1, lb_created_at = Instant 0\<rparr>"

definition run_task :: upload_task where
  "run_task = \<lparr>task_hash = sample_hash, task_peer = [8], task_payload = sample_data, task_started = Instant 0\<rparr>"

definition run_push :: incoming_push where
  "run_push = \<lparr>push_peer = [9], push_hash = sample_hash, push_data = sample_data\<rparr>"

definition run_grant :: handler_message where
  "run_grant = Response [8] 0 (IssuedStoragePermit 60)"

definition run_report :: internal_message where
  "run_report = UpdateChunkStatus sample_hash (ChunkFinalized [8]) (Instant 0)"

definition run_header :: "bytes option" where
  "run_header = Some [50]"

definition run_bridge :: "nat \<Rightarrow> timestamped_status list \<Rightarrow> bridge_state" where
  "run_bridge k l = \<lparr>hashing = semaphore_new 2, admission_budget = semaphore_new k,
     status_map = [''blob_a'' \<mapsto> l]\<rparr>"

abbreviation first_status :: timestamped_status where
  "first_status \<equiv> pending_at (Instant 0)"

definition run1 :: node where
  "run1 = node_new\<lparr>bridge := run_bridge 1535 [first_status], uploads := [run_upload []]\<rparr>"

definition run2 :: node where
  "run2 = run1\<lparr>uploads := [run_upload sample_data]\<rparr>"

definition run3 :: node where
  "run3 = run1\<lparr>uploads := [], admission_ch := (channel_new (Some 16))\<lparr>queued := [NewBlob run_blob]\<rparr>,
     handed := [run_blob]\<rparr>"

definition run4 :: node where
  "run4 = run1\<lparr>uploads := [], handed := [run_blob],
     pl := pipeline_new\<lparr>current_blob := Some (run_local ChunkPending)\<rparr>\<rparr>"

definition run5 :: node where
  "run5 = run4\<lparr>handler_ch := (channel_new (Some 256))\<lparr>queued := [run_grant]\<rparr>\<rparr>"

definition run_pipeline :: "nat \<Rightarrow> local_blob option \<Rightarrow> pipeline" where
  "run_pipeline k b = pipeline_new\<lparr>current_blob := b, upload_allowance := semaphore_new k,
     storage_permits := [[8] \<mapsto> Instant (from_secs 60)]\<rparr>"

definition run6 :: node where
  "run6 = run4\<lparr>pl := run_pipeline 19 (Some (run_local (ChunkInflight [8]))), running := [run_task]\<rparr>"

definition run7 :: node where
  "run7 = run4\<lparr>pl := run_pipeline 20 (Some (run_local (ChunkInflight [8]))),
     internal_ch := (channel_new None)\<lparr>queued := [run_report]\<rparr>,
     deliveries := [([8], run_push)], acked := {(sample_hash, [8], sample_data)}\<rparr>"

definition run8 :: node where
  "run8 = run4\<lparr>pl := run_pipeline 20 None, bridge := run_bridge 1536 [first_status],
     bridge_ch := (channel_new (Some 128))\<lparr>queued := [UpdateStatus ''blob_a'' Finalized]\<rparr>,
     deliveries := [([8], run_push)], acked := {(sample_hash, [8], sample_data)}\<rparr>"

definition run9 :: node where
  "run9 = run8\<lparr>bridge := run_bridge 1536 [first_status, \<lparr>ts_at = Instant 0, ts_status = Finalized\<rparr>],
     bridge_ch := channel_new (Some 128)\<rparr>"

lemmas run_defs = run1_def run2_def run3_def run4_def run5_def run6_def run7_def run8_def run9_def
  run_pipeline_def run_local_def run_chunk_def run_bridge_def node_new_def pipeline_new_def

abbreviation run_step :: "(handler_message \<Rightarrow> bool) \<Rightarrow> node \<Rightarrow> node \<Rightarrow> bool" where
  "run_step feed \<equiv> node_step sample_lib feed {[8]} [9]"

section \<open>Lookups\<close>

lemma run_declared: "declared_len sample_lib run_header = Some 2"
  by (simp add: declared_len_def run_header_def sample_lib_def parse_usize_def digit_value_def
      char_of_def bit_0)

lemma run_channels [simp]:
  "rx_alive (channel_new k)" "queued (channel_new k) = []" "capacity (channel_new k) = k"
  "has_room ((channel_new k)\<lparr>queued := q\<rparr>) = (case k of None \<Rightarrow> True | Some m \<Rightarrow> length q < m)"
  "has_room (channel_new k) = (case k of None \<Rightarrow> True | Some m \<Rightarrow> 0 < m)"
  "(channel_new k)\<lparr>queued := []\<rparr> = channel_new k"
  by (simp_all add: channel_new_def has_room_def split: option.splits)

lemma run_semaphores [simp]:
  "try_acquire_many j (semaphore_new k) = (if k < j then None else Some (semaphore_new (k - j)))"
  "release_many j (semaphore_new k) = semaphore_new (k + j)"
  by (simp_all add: try_acquire_many_def semaphore_new_def release_many_def)

lemma chan_recv_single: "queued ch = [m] \<Longrightarrow> chan_recv ch = Some (m, ch\<lparr>queued := []\<rparr>)"
  by (simp add: chan_recv_def)

section \<open>The steps\<close>

lemma step1: "run_step feed node_new run1"
proof -
  have "new_blob_admit sample_lib (clock node_new) ''blob_a'' run_header (bridge node_new) =
      (Inr (run_upload []), run_bridge 1535 [first_status])"
    using run_declared
    by (simp add: new_blob_admit_def admission_new_def div_ceil_def MAX_BLOB_SIZE_def TOTAL_CHUNK_BUDGET_def
        Let_def node_new_def run_bridge_def bridge_state_new_def run_upload_def)
  from node_step.admit[OF this, of feed "{[8]}" "[9]"] show ?thesis
    by (simp add: run1_def) (simp add: node_new_def)
qed

lemma step2: "run_step feed run1 run2"
proof -
  have "body_step sample_lib True (Frame sample_data) (uploads run1 ! 0) = Some (Inr (run_upload sample_data))"
    by (simp add: run_defs body_step_def run_upload_def fill.simps sample_data_def Let_def)
  from node_step.body[of 0 run1 "Frame sample_data", OF _ _ this, of feed "{[8]}" "[9]"] show ?thesis
    by (simp add: run2_def) (simp add: run_defs)
qed

lemma step3: "run_step feed run2 run3"
proof -
  have "new_blob_finish sample_lib True (uploads run2 ! 0) = Inr run_blob"
    by (simp add: run2_def new_blob_finish_def run_upload_def hash_chunk_def run_blob_def)
      (simp add: sample_data_def)
  moreover have "new_blob_send (uploads run2 ! 0) run_blob (bridge run2) (admission_ch run2) =
      Some (Inr (CREATED, ''blob_a''), bridge run2, (channel_new (Some 16))\<lparr>queued := [NewBlob run_blob]\<rparr>)"
    by (simp add: new_blob_send_def chan_send_def run2_def run1_def run_upload_def node_new_def)
  ultimately show ?thesis
    using node_step.hand_over[of 0 run2 sample_lib True run_blob]
    by (force simp: run3_def run2_def run1_def without_def node_new_def)
qed

lemma step4: "run_step feed run3 run4"
proof (rule node_step.admission_recv)
  show "orders run3 [] [] []" by (simp add: orders_def covers_def run_defs)
  show "chan_recv (admission_ch run3) = Some (NewBlob run_blob, channel_new (Some 16))"
    by (simp add: chan_recv_def run3_def)
  show "handled (on_admission (clock run3) [] (NewBlob run_blob) (pl run3))
      (run3\<lparr>admission_ch := channel_new (Some 16)\<rparr>) = Some run4"
    by (simp add: on_admission_def add_local_blob_def begin_next_blob_def request_storage_permits_def
        handled_def run_blob_def collect_map_def keys_in_def run_defs)
qed

lemma step5: "feed run_grant \<Longrightarrow> run_step feed run4 run5"
proof -
  assume "feed run_grant"
  have "chan_send run_grant (handler_ch run4) = Sent ((channel_new (Some 256))\<lparr>queued := [run_grant]\<rparr>)"
    by (simp add: chan_send_def run_defs)
  from node_step.feeds[of feed, OF \<open>feed run_grant\<close> this, of sample_lib "{[8]}" "[9]"] show ?thesis
    by (simp add: run5_def)
qed

lemma step6: "run_step feed run5 run6"
proof (rule node_step.handler_recv)
  show "orders run5 [] [[8]] [sample_hash]"
    by (simp add: orders_def covers_def run_grant_def run_defs)
  show "chan_recv (handler_ch run5) = Some (run_grant, channel_new (Some 256))"
    by (simp add: chan_recv_def run5_def)
  have grant: "checked_add sample_lib (Instant 0) (from_secs (unat (60 :: u64))) = Some (Instant (from_secs 60))"
    by (simp add: checked_add_def sample_lib_def from_secs_def)
  have pend: "is_eligible (Instant 0) (run_chunk ChunkPending)"
    by (simp add: is_eligible_def run_chunk_def)
  have later: "Instant 0 < Instant (from_secs 60)" by (simp add: less_instant_def from_secs_def)
  have asg: "assign_chunks (Instant 0) [[8]] [sample_hash]
      (run_pipeline 20 (Some (run_local ChunkPending))) =
    (run_pipeline 19 (Some (run_local (ChunkInflight [8]))), [Spawn run_task])"
    using later pend
    by (simp add: assign_chunks_def eligible_peers_def eligible_chunks_def run_pipeline_def run_local_def
        Let_def set_status_def run_chunk_def run_task_def)
  show "handled (on_handler_message sample_lib (clock run5) [[8]] [sample_hash] run_grant (pl run5))
      (run5\<lparr>handler_ch := channel_new (Some 256)\<rparr>) = Some run6"
  proof -
    have "pl run5\<lparr>storage_permits := (storage_permits (pl run5))([8] \<mapsto> Instant (from_secs 60))\<rparr> =
        run_pipeline 20 (Some (run_local ChunkPending))" "clock run5 = Instant 0"
      by (simp_all add: run_defs)
    with grant asg have "on_handler_message sample_lib (clock run5) [[8]] [sample_hash] run_grant (pl run5) =
        (run_pipeline 19 (Some (run_local (ChunkInflight [8]))), [Spawn run_task])"
      by (simp add: on_handler_message_def run_grant_def)
    then show ?thesis by (simp add: handled_def deliver_def run6_def run5_def run4_def run1_def)
      (simp add: node_new_def)
  qed
qed

lemma step7: "run_step feed run6 run7"
proof -
  have handle: "handle_incoming_push sample_lib [9] 4 sample_server =
      (Inr (), sample_server\<lparr>rx := [], tx := [1]\<rparr>, [run_push])"
  proof -
    have "read_push 4 sample_server = (Inr (sample_hash, sample_data), sample_server\<lparr>rx := []\<rparr>)"
      by (simp add: read_push_Inr frame_fits_def)
    then show ?thesis by (simp add: handle_incoming_push_def write_all_ok run_push_def)
  qed
  have srv: "served sample_lib {[8]} [9] (task_peer run_task) sample_client
      (sample_client\<lparr>rx := [], tx := frame_bytes sample_hash @ frame_bytes sample_data\<rparr>) [run_push]"
    unfolding served_def
    by (intro impI exI[of _ sample_server] exI[of _ "Inr ()"] exI[of _ "sample_server\<lparr>rx := [], tx := [1]\<rparr>"])
      (simp add: handle)
  have "run_step feed run6 (finish_task 0 (upload_outcome_of (Some (Inr ()))) [run_push] run6)"
    using sample_push srv
    by (intro node_step.task_end[of 0 run6 run_task sample_client True]) (simp_all add: run6_def run_task_def)
  moreover have "finish_task 0 (upload_outcome_of (Some (Inr ()))) [run_push] run6 = run7"
    by (simp add: finish_task_def upload_outcome_of_def upload_report_def upload_release_def without_def
        chan_try_send_def chan_send_def run_task_def run_report_def run_defs)
  ultimately show ?thesis by simp
qed

lemma step8: "run_step feed run7 run8"
proof (rule node_step.internal_recv)
  show "orders run7 [] [[8]] [sample_hash]" by (simp add: orders_def covers_def run_defs)
  show "chan_recv (internal_ch run7) = Some (run_report, channel_new None)"
    by (simp add: chan_recv_def run7_def)
  show "on_internal (clock run7) [] [[8]] [sample_hash] run_report (pl run7) =
      Some (run_pipeline 20 None, [ToBridge (UpdateStatus ''blob_a'' Finalized), DropAllowance 1])"
    by (simp add: on_internal_def run_report_def run_defs set_status_def all_finalized_def archive_cur_blob_def
        begin_next_blob_def assign_chunks_def)
  show "handled (run_pipeline 20 None, [ToBridge (UpdateStatus ''blob_a'' Finalized), DropAllowance 1])
      (run7\<lparr>internal_ch := channel_new None\<rparr>) = Some run8"
    by (simp add: handled_def deliver_def send_waiting_def chan_send_def run_defs)
qed

lemma step9: "run_step feed run8 run9"
proof -
  have "chan_recv (bridge_ch run8) = Some (UpdateStatus ''blob_a'' Finalized, channel_new (Some 128))"
    by (simp add: chan_recv_def run8_def)
  from node_step.bridge_recv[OF this, of sample_lib feed "{[8]}" "[9]"] show ?thesis
    by (simp add: run9_def bridge_message_def run8_def run_bridge_def) (simp add: run_defs)
qed

abbreviation run_reach :: "(handler_message \<Rightarrow> bool) \<Rightarrow> node \<Rightarrow> bool" where
  "run_reach feed \<equiv> reachable_node sample_lib feed {[8]} [9]"

lemma run_start: "run_reach feed node_new"
  unfolding reachable_node_def by (rule reachable.start)

lemma run_more: "run_reach feed s \<Longrightarrow> run_step feed s t \<Longrightarrow> run_reach feed t"
  unfolding reachable_node_def by (rule reachable.more)

lemma run_early_reachable: "run_reach feed run4"
  by (intro run_more[OF _ step4] run_more[OF _ step3] run_more[OF _ step2] run_more[OF _ step1] run_start)

lemma run_mid_reachable: "run_reach (\<lambda>_. True) run6"
  by (intro run_more[OF _ step6] run_more[OF _ step5] run_early_reachable) simp

lemma run_reachable: "run_reach (\<lambda>_. True) run9"
  by (intro run_more[OF _ step9] run_more[OF _ step8] run_more[OF _ step7] run_mid_reachable)

lemma lib_ok_sample: "lib_ok sample_lib"
  by (simp add: lib_ok_def blake3_digests_sample)

lemma run_final_status: "get_status (bridge run9) ''blob_a'' = Some (OK, Some Finalized)"
  by (simp add: get_status_def last_status_def run9_def run_bridge_def)

end
