(* ===== verification/NodeStuck.thy ===== *)
theory NodeStuck
  imports NodeCorrect
begin

text \<open>
  Two more invariants of the running client: the status table never holds an empty history,
  and a client whose handler channel never carries a response never uploads anything.
\<close>

section \<open>Status histories\<close>

lemma status_wf_handled: "status_wf (bridge n) \<Longrightarrow> handled r n = Some n' \<Longrightarrow> status_wf (bridge n')"
  using handled_effect(13)[of r n n'] by (simp add: status_wf_def)

lemma status_wf_step:
  assumes "status_wf (bridge n)" and "node_step L feed nodes me n n'"
  shows "status_wf (bridge n')"
  using assms(2)
proof (cases rule: node_step.cases)
  case (admit bid hdr r st)
  then show ?thesis using status_wf_admit[OF assms(1)] by simp
next
  case (hand_over i c blob r st ch)
  have "st = upload_drop (uploads n ! i) (bridge n) \<or> st = bridge n"
    using hand_over(4) by (auto simp: new_blob_send_def split: sent.splits)
  then show ?thesis using assms(1) status_wf_upload_drop hand_over(1) by auto
next
  case (lookup bid r st)
  then show ?thesis using status_wf_get_blob_entry[OF assms(1)] by simp
next
  case (stale ho po co)
  then show ?thesis using status_wf_handled assms(1) by blast
next
  case (assign ho po co)
  then show ?thesis using status_wf_handled assms(1) by blast
next
  case (handler_recv ho po co m ch)
  then show ?thesis using status_wf_handled[of "n\<lparr>handler_ch := ch\<rparr>"] assms(1) by simp
next
  case (admission_recv ho po co m ch)
  then show ?thesis using status_wf_handled[of "n\<lparr>admission_ch := ch\<rparr>"] assms(1) by simp
next
  case (internal_recv ho po co m ch r)
  then show ?thesis using status_wf_handled[of "n\<lparr>internal_ch := ch\<rparr>"] assms(1) by simp
qed (use assms(1) in \<open>simp_all add: drop_upload_def status_wf_upload_drop status_wf_bridge_message
    finish_task_def Let_def\<close>)

interpretation table: invariant node_new "node_step L feed nodes me" "\<lambda>n. status_wf (bridge n)"
  for L feed nodes me
  by unfold_locales (auto simp: node_new_def intro: status_wf_step)

lemma table_reachable: "reachable_node L feed nodes me n \<Longrightarrow> status_wf (bridge n)"
  unfolding reachable_node_def by (rule table.inv_reachable)

section \<open>Without responses\<close>

definition stuck_inv :: "node \<Rightarrow> bool" where
  "stuck_inv n \<longleftrightarrow> storage_permits (pl n) = Map.empty \<and>
     (\<forall>m\<in>set (queued (handler_ch n)). \<not> is_response m) \<and> running n = [] \<and>
     queued (internal_ch n) = [] \<and> queued (bridge_ch n) = [] \<and> acked n = {} \<and>
     statuses_ok {} (bridge n)"

text \<open>A handler that starts no task, reports no blob and records no permit.\<close>

definition quiet :: "pipeline \<times> emission list \<Rightarrow> bool" where
  "quiet r \<longleftrightarrow> storage_permits (fst r) = Map.empty \<and> spawned (snd r) = [] \<and>
     (\<forall>m. ToBridge m \<notin> set (snd r))"

lemma quiet_silent: "storage_permits q = Map.empty \<Longrightarrow> quiet (q, [])"
  by (simp add: quiet_def)

lemma quiet_request: "storage_permits q = Map.empty \<Longrightarrow> quiet (request_storage_permits now po q)"
  by (simp add: quiet_def request_storage_permits_def Let_def)

lemma quiet_begin: "storage_permits q = Map.empty \<Longrightarrow> quiet (begin_next_blob now po q)"
  by (auto simp: begin_next_blob_def intro: quiet_request quiet_silent split: list.splits)

lemma quiet_assign: "storage_permits q = Map.empty \<Longrightarrow> quiet (assign_chunks now po co q)"
  by (auto simp: assign_chunks_def eligible_peers_def Let_def intro: quiet_silent split: option.splits)

lemma quiet_stale: "storage_permits q = Map.empty \<Longrightarrow> quiet (on_timer_stale now po q)"
  by (simp add: on_timer_stale_def Let_def quiet_request quiet_silent)

lemma quiet_handler:
  "storage_permits q = Map.empty \<Longrightarrow> \<not> is_response m \<Longrightarrow> quiet (on_handler_message L now po co m q)"
  by (cases m) (simp_all add: on_handler_message_def quiet_silent)

lemma quiet_admission: "storage_permits q = Map.empty \<Longrightarrow> quiet (on_admission now po m q)"
  by (auto simp: on_admission_def add_local_blob_def intro: quiet_begin quiet_silent split: to_pipeline.splits)

lemma stuck_handled:
  assumes "stuck_inv n" and "quiet r" and "handled r n = Some n'"
  shows "stuck_inv n'"
proof -
  have "queued (bridge_ch n') = []"
    using assms handled_effect(14)[OF assms(3)] by (auto simp: stuck_inv_def quiet_def)
  then show ?thesis using assms(1,2) handled_effect[OF assms(3)]
    by (simp add: stuck_inv_def quiet_def statuses_ok_def)
qed

lemma stuck_bridge:
  "stuck_inv n \<Longrightarrow> statuses_ok {} st \<Longrightarrow> stuck_inv (n\<lparr>bridge := st, uploads := us\<rparr>)"
  by (simp add: stuck_inv_def)

lemma stuck_inv_step:
  assumes "stuck_inv n" and "\<forall>m. feed m \<longrightarrow> \<not> is_response m" and "node_step L feed nodes me n n'"
  shows "stuck_inv n'"
proof -
  have ok: "statuses_ok {} (bridge n)" and perm: "storage_permits (pl n) = Map.empty"
    using assms(1) by (simp_all add: stuck_inv_def)
  from assms(3) show ?thesis
  proof (cases rule: node_step.cases)
    case (admit bid hdr r st)
    have "statuses_ok {} st" using ok admit(2) by (rule statuses_ok_admit)
    then show ?thesis using stuck_bridge[OF assms(1)] admit(1) by simp
  next
    case (hand_over i c blob r st ch)
    have "st = upload_drop (uploads n ! i) (bridge n) \<or> st = bridge n"
      using hand_over(4) by (auto simp: new_blob_send_def split: sent.splits)
    then show ?thesis using assms(1) statuses_ok_upload_drop hand_over(1) by (auto simp: stuck_inv_def)
  next
    case (lookup bid r st)
    then show ?thesis using assms(1) statuses_ok_entry[OF ok] by (simp add: stuck_inv_def)
  next
    case (bridge_recv m ch)
    then show ?thesis using assms(1) by (simp add: stuck_inv_def chan_recv_def)
  next
    case (stale ho po co)
    then show ?thesis using stuck_handled[OF assms(1) quiet_stale[OF perm]] by blast
  next
    case (assign ho po co)
    then show ?thesis using stuck_handled[OF assms(1) quiet_assign[OF perm]]
      unfolding on_timer_assign_def by blast
  next
    case (handler_recv ho po co m ch)
    have q: "queued (handler_ch n) = m # queued ch" using handler_recv(2) by (rule chan.get_contents)
    then have "stuck_inv (n\<lparr>handler_ch := ch\<rparr>)" "\<not> is_response m"
      using assms(1) by (simp_all add: stuck_inv_def)
    then show ?thesis using stuck_handled[OF _ quiet_handler[OF perm] handler_recv(3)] by blast
  next
    case (admission_recv ho po co m ch)
    have "stuck_inv (n\<lparr>admission_ch := ch\<rparr>)" using assms(1) by (simp add: stuck_inv_def)
    then show ?thesis using stuck_handled[OF _ quiet_admission[OF perm] admission_recv(3)] by blast
  next
    case (internal_recv ho po co m ch r)
    then show ?thesis using assms(1) by (simp add: stuck_inv_def chan_recv_def)
  next
    case (feeds m ch)
    have "queued ch = queued (handler_ch n) @ [m]" using feeds(3) by (rule chan.put_contents)
    then show ?thesis using assms(1,2) feeds(1,2) by (auto simp: stuck_inv_def)
  qed (use assms(1) in \<open>simp_all add: stuck_inv_def drop_upload_def statuses_ok_upload_drop\<close>)
qed

lemma stuck_inv_new: "stuck_inv node_new"
  by (simp add: stuck_inv_def node_new_def pipeline_new_def channel_new_def statuses_ok_def bridge_state_new_def)

text \<open>The handler messages of the program's own swarm task make such a client.\<close>

interpretation stuck: invariant node_new "node_step L (swarm_feeds gossip_ok) nodes me" stuck_inv
  for L gossip_ok nodes me
proof unfold_locales
  show "stuck_inv node_new" by (rule stuck_inv_new)
next
  fix s t assume "stuck_inv s" "node_step L (swarm_feeds gossip_ok) nodes me s t"
  then show "stuck_inv t" using stuck_inv_step swarm_feeds_no_response by blast
qed

lemma stuck_reachable: "reachable_node L (swarm_feeds gossip_ok) nodes me n \<Longrightarrow> stuck_inv n"
  unfolding reachable_node_def by (rule stuck.inv_reachable)

end
