(* ===== verification/NodeLive.thy ===== *)
theory NodeLive
  imports NodeCorrect
begin

text \<open>
  What the running client needs to make progress, as an invariant: its maps are finite, no
  timestamp lies in the future, every blob in the pipeline still has a chunk that is not finalized, the
  chunks fit the transfer protocol and the channels are open.
\<close>

section \<open>Blobs that can go on\<close>

definition chunks_ok :: "lib \<Rightarrow> instant \<Rightarrow> (hash \<rightharpoonup> chunk) \<Rightarrow> bool" where
  "chunks_ok L now m \<longleftrightarrow> finite (dom m) \<and>
     (\<forall>h c. m h = Some c \<longrightarrow> cs_at (ch_status c) \<le> now \<and> length (ch_data c) \<le> chunk_size L)"

definition unfinished :: "(hash \<rightharpoonup> chunk) \<Rightarrow> hash set" where
  "unfinished m = {h. \<exists>c. m h = Some c \<and> (\<forall>p. cs_status (ch_status c) \<noteq> ChunkFinalized p)}"

definition live_pl :: "lib \<Rightarrow> instant \<Rightarrow> pipeline \<Rightarrow> bool" where
  "live_pl L now q \<longleftrightarrow> finite (dom (storage_provider_hints q)) \<and> finite (dom (storage_permits q)) \<and>
     (\<forall>b\<in>set (blobs q). chunks_ok L now (lb_chunks b) \<and> unfinished (lb_chunks b) \<noteq> {})"

lemma chunks_ok_mono: "chunks_ok L now m \<Longrightarrow> now \<le> later \<Longrightarrow> chunks_ok L later m"
  unfolding chunks_ok_def by (meson order_trans)

lemma live_pl_mono: "live_pl L now q \<Longrightarrow> now \<le> later \<Longrightarrow> live_pl L later q"
  using chunks_ok_mono by (auto simp: live_pl_def)

lemma live_pl_frame:
  assumes "live_pl L now q" and "set (blobs q') \<subseteq> set (blobs q)"
    and "dom (storage_provider_hints q') \<subseteq> dom (storage_provider_hints q)"
    and "dom (storage_permits q') \<subseteq> dom (storage_permits q)"
  shows "live_pl L now q'"
  using assms finite_subset unfolding live_pl_def by (meson subsetD)

text \<open>Setting a status keeps a map of chunks in order.\<close>

lemma chunks_ok_status:
  assumes "chunks_ok L now m" and "m h = Some c"
  shows "chunks_ok L now (m(h \<mapsto> set_status now s c))"
  using assms by (auto simp: chunks_ok_def)

lemma unfinished_status:
  assumes "m h = Some c"
  shows "unfinished (m(h \<mapsto> set_status now s c)) =
    (if \<exists>p. s = ChunkFinalized p then unfinished m - {h} else insert h (unfinished m))"
  using assms by (auto simp: unfinished_def)

lemma start_tasks_ok:
  assumes "chunks_ok L now m" and "task_hash ` set ts \<subseteq> dom m" and "\<forall>t\<in>set ts. task_started t = now"
  shows "chunks_ok L now (fold start_task ts m) \<and> unfinished m \<subseteq> unfinished (fold start_task ts m)"
  using assms
proof (induction ts arbitrary: m)
  case (Cons t ts)
  then obtain c where c: "m (task_hash t) = Some c" by auto
  have st: "start_task t m = m(task_hash t \<mapsto> set_status now (ChunkInflight (task_peer t)) c)"
    using c Cons.prems(3) by (simp add: start_task_def)
  have "chunks_ok L now (start_task t m)" unfolding st using Cons.prems(1) c by (rule chunks_ok_status)
  moreover have "task_hash ` set ts \<subseteq> dom (start_task t m)" using Cons.prems(2) by (auto simp: st)
  moreover have "unfinished m \<subseteq> unfinished (start_task t m)" unfolding st unfinished_status[of m "task_hash t" c, OF c] by auto
  ultimately show ?case using Cons.IH[of "start_task t m"] Cons.prems(3) by auto
qed simp

section \<open>The handlers\<close>

lemma live_pl_request: "live_pl L now q \<Longrightarrow> live_pl L now (fst (request_storage_permits now po q))"
  by (erule live_pl_frame) (auto simp: request_storage_permits_def Let_def blobs_def)

lemma blobs_begin: "blobs (fst (begin_next_blob now po q)) = blobs q"
  by (cases "current_blob q"; cases "pending_local_blobs q") (auto simp: begin_next_blob_def blobs_def)

lemma begin_permits: "dom (storage_permits (fst (begin_next_blob now po q))) \<subseteq> dom (storage_permits q)"
  and begin_hints: "storage_provider_hints (fst (begin_next_blob now po q)) = storage_provider_hints q"
  by (auto simp: begin_next_blob_def request_storage_permits_def Let_def split: list.splits)

lemma live_pl_begin: "live_pl L now q \<Longrightarrow> live_pl L now (fst (begin_next_blob now po q))"
  by (erule live_pl_frame) (simp_all add: blobs_begin begin_permits begin_hints)

lemma chosen_tasks_started: "t \<in> set (chosen_tasks now po co q b) \<Longrightarrow> task_started t = now"
  by (auto simp: chosen_tasks_def split: if_splits)

lemma live_pl_assign:
  assumes "live_pl L now q" and "distinct co" and "\<not> sem_closed (upload_allowance q)"
  shows "live_pl L now (fst (assign_chunks now po co q))"
proof (cases "current_blob q")
  case None
  then have "fst (assign_chunks now po co q) = q" by (auto simp: assign_chunks_def Let_def)
  then show ?thesis using assms(1) by simp
next
  case (Some b)
  have b: "chunks_ok L now (lb_chunks b)" "unfinished (lb_chunks b) \<noteq> {}"
    using assms(1) Some by (simp_all add: live_pl_def blobs_def)
  from start_tasks_ok[OF b(1) chosen_tasks_in] chosen_tasks_started
  have "chunks_ok L now (fold start_task (chosen_tasks now po co q b) (lb_chunks b))"
    "unfinished (fold start_task (chosen_tasks now po co q b) (lb_chunks b)) \<noteq> {}"
    using b(2) by blast+
  then show ?thesis using assms(1) Some
    by (simp add: assign_chunks_spec[OF Some assms(2,3)] live_pl_def blobs_def)
qed

lemma live_pl_stale: "live_pl L now q \<Longrightarrow> live_pl L now (fst (on_timer_stale now po q))"
proof -
  assume "live_pl L now q"
  then have "live_pl L now (q\<lparr>storage_provider_hints := retain p (storage_provider_hints q)\<rparr>)" for p
    by (rule live_pl_frame) (auto simp: blobs_def)
  then show ?thesis using live_pl_request by (simp add: on_timer_stale_def Let_def)
qed

lemma live_pl_handler:
  assumes "live_pl L now q" and "distinct co" and "\<not> sem_closed (upload_allowance q)"
  shows "live_pl L now (fst (on_handler_message L now po co m q))"
proof -
  have perm: "live_pl L now (q\<lparr>storage_permits := (storage_permits q)(p \<mapsto> e)\<rparr>)" for p e
    using assms(1) by (simp add: live_pl_def blobs_def)
  have "live_pl L now (q\<lparr>storage_provider_hints := (storage_provider_hints q)(p \<mapsto> now)\<rparr>)" for p
    using assms(1) by (simp add: live_pl_def blobs_def)
  then show ?thesis using assms(1) live_pl_assign[OF perm assms(2)] assms(3)
    by (auto simp: on_handler_message_def Let_def split: handler_message.splits response.splits)
qed

text \<open>What is needed of a blob that is handed over.\<close>

definition sendable :: "lib \<Rightarrow> admitted_blob \<Rightarrow> bool" where
  "sendable L a \<longleftrightarrow> ab_chunks a \<noteq> [] \<and> (\<forall>(h, d)\<in>set (ab_chunks a). length d \<le> chunk_size L)"

lemma live_pl_add:
  assumes "live_pl L now q" and "sendable L a"
  shows "live_pl L now (add_local_blob now a q)"
proof -
  let ?m = "collect_map (List.map (\<lambda>(hash, data).
      (hash, \<lparr>ch_data = data, ch_status = \<lparr>cs_at = now, cs_status = ChunkPending\<rparr>\<rparr>)) (ab_chunks a))"
  have in_m: "cs_at (ch_status c) = now \<and> cs_status (ch_status c) = ChunkPending \<and> (h, ch_data c) \<in> set (ab_chunks a)"
    if "?m h = Some c" for h c
    using collect_map_SomeD[OF that] by auto
  have ok: "chunks_ok L now ?m"
    unfolding chunks_ok_def
  proof (intro conjI allI impI)
    fix h c assume c: "?m h = Some c"
    show "cs_at (ch_status c) \<le> now" using in_m[OF c] by simp
    show "length (ch_data c) \<le> chunk_size L" using in_m[OF c] assms(2) by (auto simp: sendable_def)
  qed simp
  obtain h d where "(h, d) \<in> set (ab_chunks a)" using assms(2) by (cases "ab_chunks a") (auto simp: sendable_def)
  then have "h \<in> dom ?m" unfolding dom_collect_map by force
  then have "unfinished ?m \<noteq> {}" using in_m by (fastforce simp: unfinished_def)
  with ok show ?thesis using assms(1)
    by (simp add: live_pl_def blobs_def add_local_blob_def Let_def ball_Un)
qed

lemma live_pl_admission:
  assumes "live_pl L now q" and "\<forall>a. m = NewBlob a \<longrightarrow> sendable L a"
  shows "live_pl L now (fst (on_admission now po m q))"
proof (cases m)
  case (GetBlob bid)
  have "live_pl L now (q\<lparr>remote_blobs := r\<rparr>)" for r using assms(1) by (simp add: live_pl_def blobs_def)
  then show ?thesis using GetBlob by (simp add: on_admission_def)
next
  case (NewBlob a)
  then show ?thesis using assms live_pl_begin[OF live_pl_add] by (simp add: on_admission_def)
qed

lemma unfinished_not_all: "\<not> all_finalized co m \<Longrightarrow> unfinished m \<noteq> {}"
  by (fastforce simp: all_finalized_def list_all_iff unfinished_def split: option.splits chunk_upload_status.splits)

lemma live_pl_internal:
  assumes "live_pl L now q" and "distinct co" and "\<not> sem_closed (upload_allowance q)"
    and "on_internal now ho po co m q = Some r"
  shows "live_pl L now (fst r)"
proof -
  obtain h s t where m: "m = UpdateChunkStatus h s t" by (cases m)
  have upd: "live_pl L now (q\<lparr>current_blob := Some (noted now h s b c)\<rparr>)"
    if "current_blob q = Some b" "lb_chunks b h = Some c" "unfinished ((lb_chunks b)(h \<mapsto> set_status now s c)) \<noteq> {}" for b c
    using assms(1) that chunks_ok_status[of L now "lb_chunks b" h c s] by (auto simp: live_pl_def blobs_def)
  from assms(4) show ?thesis unfolding m
  proof (cases rule: on_internal_cases)
    case (recorded b c)
    then show ?thesis using upd[OF recorded(1,2)] unfinished_status[of "lb_chunks b" h c now s] by simp
  next
    case (progress b c)
    then have "live_pl L now (q\<lparr>current_blob := Some (noted now h s b c)\<rparr>)"
      using upd unfinished_not_all by simp
    then show ?thesis using live_pl_assign[OF _ assms(2)] assms(3) progress(4) by simp
  next
    case (archived b c begun)
    have "live_pl L now (q\<lparr>current_blob := None\<rparr>)"
      using assms(1) by (rule live_pl_frame) (auto simp: blobs_def)
    then have "live_pl L now (fst begun)" unfolding archived(4) by (rule live_pl_begin)
    moreover have "upload_allowance (fst begun) = upload_allowance q" by (simp add: archived(4))
    ultimately show ?thesis using live_pl_assign[OF _ assms(2)] assms(3) archived(5) by simp
  qed (use assms(1) in simp)
qed

section \<open>The invariant of the node\<close>

definition channels_ok :: "node \<Rightarrow> bool" where
  "channels_ok n \<longleftrightarrow> rx_alive (handler_ch n) \<and> capacity (handler_ch n) = Some 256 \<and>
     rx_alive (swarm_ch n) \<and> capacity (swarm_ch n) = Some 16 \<and>
     rx_alive (bridge_ch n) \<and> capacity (bridge_ch n) = Some 128 \<and>
     rx_alive (internal_ch n) \<and> capacity (internal_ch n) = None"

definition live_inv :: "lib \<Rightarrow> node \<Rightarrow> bool" where
  "live_inv L n \<longleftrightarrow> live_pl L (clock n) (pl n) \<and> channels_ok n \<and>
     (\<forall>u\<in>set (uploads n). 0 < up_declared u) \<and>
     (\<forall>a\<in>set (new_blobs (queued (admission_ch n))). sendable L a)"

lemma chan_recv_same: "chan_recv c = Some (m, c') \<Longrightarrow> rx_alive c' = rx_alive c \<and> capacity c' = capacity c"
  by (auto simp: chan_recv_def split: list.splits)

lemma chan_send_same: "chan_send m c = Sent c' \<Longrightarrow> rx_alive c' = rx_alive c \<and> capacity c' = capacity c"
  by (auto simp: chan_send_def split: if_splits)

lemma send_waiting_same: "send_waiting m c = Some c' \<Longrightarrow> rx_alive c' = rx_alive c \<and> capacity c' = capacity c"
  by (auto simp: send_waiting_def split: sent.splits dest: chan_send_same)

lemma deliver_channels:
  assumes "deliver e n = Some m"
  shows "handler_ch m = handler_ch n \<and> internal_ch m = internal_ch n \<and>
    rx_alive (swarm_ch m) = rx_alive (swarm_ch n) \<and> capacity (swarm_ch m) = capacity (swarm_ch n) \<and>
    rx_alive (bridge_ch m) = rx_alive (bridge_ch n) \<and> capacity (bridge_ch m) = capacity (bridge_ch n)"
  using assms by (cases e) (auto simp: deliver_def dest!: send_waiting_same)

lemma deliver_all_channels: "deliver_all es n = Some n' \<Longrightarrow> channels_ok n \<Longrightarrow> channels_ok n'"
proof (induction es arbitrary: n)
  case (Cons e es)
  then obtain m where m: "deliver e n = Some m" "deliver_all es m = Some n'" by (auto split: Option.bind_splits)
  have "channels_ok m" using deliver_channels[OF m(1)] Cons.prems(2) by (simp add: channels_ok_def)
  then show ?case using Cons.IH m(2) by blast
qed simp

lemma handled_channels: "handled r n = Some n' \<Longrightarrow> channels_ok n \<Longrightarrow> channels_ok n'"
  unfolding handled_def by (erule deliver_all_channels) (simp add: channels_ok_def)

lemma live_inv_handled:
  assumes "handled r n = Some n'" and "live_pl L (clock n) (fst r)" and "channels_ok n"
    and "\<forall>u\<in>set (uploads n). 0 < up_declared u" and "\<forall>a\<in>set (new_blobs (queued (admission_ch n))). sendable L a"
  shows "live_inv L n'"
  using handled_effect[OF assms(1)] handled_channels[OF assms(1,3)] assms(2,4,5) by (simp add: live_inv_def)

lemma finish_sendable:
  assumes "new_blob_finish L c u = Inr a" and "upload_ok L u" and "0 < up_declared u" and "0 < chunk_size L"
  shows "sendable L a"
proof -
  obtain seen where inv: "upload_inv L seen u" using assms(2) by (auto simp: upload_ok_def)
  note fin = new_blob_finish_Inr[OF assms(1) inv]
  then have "seen \<noteq> []" using assms(3) by auto
  then have "pieces (chunk_size L) seen \<noteq> []" using assms(4) concat_pieces[of "chunk_size L" seen] by auto
  then show ?thesis using fin piece_length[OF assms(4)] by (auto simp: sendable_def hashed_def)
qed

lemma without_subset: "x \<in> set (without i xs) \<Longrightarrow> x \<in> set xs"
  using set_without by fastforce

lemma live_inv_drop: "live_inv L n \<Longrightarrow> live_inv L (drop_upload i n)"
  using set_without[of i "uploads n"] by (auto simp: live_inv_def drop_upload_def channels_ok_def)

lemma chan_try_send_keeps [simp]: "rx_alive (chan_try_send m c) = rx_alive c" "capacity (chan_try_send m c) = capacity c"
  by (simp_all add: chan_try_send_def chan_send_def)

lemma live_inv_finish: "live_inv L n \<Longrightarrow> live_inv L (finish_task i outcome del n)"
proof -
  assume inv: "live_inv L n"
  have "live_pl L (clock n) (upload_release (pl n))"
    using inv by (simp add: live_inv_def live_pl_def upload_release_def blobs_def)
  then show ?thesis using inv
    by (auto simp: live_inv_def finish_task_def Let_def channels_ok_def split: option.splits)
qed

text \<open>Every step keeps it.\<close>

lemma live_inv_bridge:
  assumes "live_inv L n" and "\<forall>u\<in>set us. 0 < up_declared u"
    and "\<forall>a\<in>set (new_blobs (queued ch)). a \<in> set (new_blobs (queued (admission_ch n))) \<or> sendable L a"
  shows "live_inv L (n\<lparr>bridge := st, uploads := us, admission_ch := ch, lookups := ls, handed := hs\<rparr>)"
  using assms by (auto simp: live_inv_def channels_ok_def)

lemma live_inv_admit:
  assumes "live_inv L n" and "new_blob_admit L (clock n) bid hdr (bridge n) = (r, st)"
  shows "live_inv L (n\<lparr>bridge := st, uploads := uploads n @ (case r of Inl _ \<Rightarrow> [] | Inr u \<Rightarrow> [u])\<rparr>)"
proof -
  have "0 < up_declared u" if "r = Inr u" for u
    using assms(2) unfolding that by (elim new_blob_admit_Inr) simp
  then show ?thesis using assms(1) by (cases r) (auto simp: live_inv_def channels_ok_def)
qed

lemma live_inv_hand_over:
  assumes "live_inv L n" and "ids_inv L n" and "0 < chunk_size L" and "i < length (uploads n)"
    and "new_blob_finish L c (uploads n ! i) = Inr a"
    and "new_blob_send (uploads n ! i) a (bridge n) (admission_ch n) = Some (r, st, ch)"
  shows "live_inv L (n\<lparr>bridge := st, admission_ch := ch, uploads := without i (uploads n), handed := hs\<rparr>)"
proof -
  have u: "uploads n ! i \<in> set (uploads n)" using assms(4) by simp
  then have "upload_ok L (uploads n ! i)" "0 < up_declared (uploads n ! i)"
    using assms(1,2) by (auto simp: live_inv_def ids_inv_def)
  from finish_sendable[OF assms(5) this assms(3)] have "sendable L a" .
  moreover have "queued ch = queued (admission_ch n) \<or> queued ch = queued (admission_ch n) @ [NewBlob a]"
    using assms(6) by (auto simp: new_blob_send_def chan.put_contents split: sent.splits)
  ultimately show ?thesis using assms(1) set_without[of i "uploads n"]
    by (auto simp: live_inv_def channels_ok_def)
qed

lemma live_inv_reply:
  assumes "live_inv L n" and "get_blob_reply bid s (admission_ch n) = Some (r, ch)"
  shows "live_inv L (n\<lparr>admission_ch := ch, lookups := ls\<rparr>)"
proof -
  have "queued ch = queued (admission_ch n) \<or> queued ch = queued (admission_ch n) @ [GetBlob bid]"
    using assms(2) by (auto simp: get_blob_reply_def chan.put_contents split: status.splits sent.splits)
  then show ?thesis using assms(1) by (auto simp: live_inv_def channels_ok_def)
qed

lemma live_inv_step:
  assumes "live_inv L n" and "permits_inv n" and "ids_inv L n" and "0 < chunk_size L"
    and "node_step L feed nodes me n n'"
  shows "live_inv L n'"
  using assms(5)
proof (cases rule: node_step.cases)
  case (time t)
  then show ?thesis using assms(1) live_pl_mono by (auto simp: live_inv_def channels_ok_def)
next
  case (admit bid hdr r st)
  show ?thesis unfolding admit(1) by (rule live_inv_admit[OF assms(1) admit(2)])
next
  case (body i ev c u)
  have "0 < up_declared (uploads n ! i)" using assms(1) body(2) by (simp add: live_inv_def)
  then have "0 < up_declared u" using body_step_same_request[OF body(4)] by (simp add: same_request_def)
  then have "\<forall>v\<in>set ((uploads n)[i := u]). 0 < up_declared v"
    using assms(1) set_update_subset_insert[of "uploads n" i u] by (auto simp: live_inv_def)
  then show ?thesis unfolding body(1) using assms(1) by (simp add: live_inv_def channels_ok_def)
next
  case (hand_over i c a r st ch)
  show ?thesis unfolding hand_over(1) by (rule live_inv_hand_over[OF assms(1,3,4) hand_over(2-4)])
next
  case (lookup_reply i bid s r ch)
  show ?thesis unfolding lookup_reply(1) by (rule live_inv_reply[OF assms(1) lookup_reply(4)])
next
  case (bridge_recv m ch)
  then show ?thesis using assms(1) chan_recv_same by (fastforce simp: live_inv_def channels_ok_def)
next
  case (swarm_recv m ch)
  then show ?thesis using assms(1) chan_recv_same by (fastforce simp: live_inv_def channels_ok_def)
next
  case (feeds m ch)
  then show ?thesis using assms(1) chan_send_same[of m "handler_ch n" ch] by (simp add: live_inv_def channels_ok_def)
next
  case (stale ho po co)
  then show ?thesis using assms(1) live_inv_handled live_pl_stale unfolding live_inv_def by blast
next
  case (assign ho po co)
  then show ?thesis
    using assms(1,2) live_inv_handled live_pl_assign[OF _ orders_distinct[OF assign(1)]]
    unfolding live_inv_def permits_inv_def on_timer_assign_def by blast
next
  case (handler_recv ho po co m ch)
  have "channels_ok (n\<lparr>handler_ch := ch\<rparr>)"
    using assms(1) chan_recv_same[OF handler_recv(2)] by (simp add: live_inv_def channels_ok_def)
  moreover have "live_pl L (clock n) (fst (on_handler_message L (clock n) po co m (pl n)))"
    using assms(1,2) by (intro live_pl_handler orders_distinct[OF handler_recv(1)]) (simp_all add: live_inv_def permits_inv_def)
  ultimately show ?thesis
    using assms(1) by (intro live_inv_handled[OF handler_recv(3)]) (simp_all add: live_inv_def)
next
  case (admission_recv ho po co m ch)
  have q: "queued (admission_ch n) = m # queued ch" using admission_recv(2) by (rule chan.get_contents)
  have "\<forall>a\<in>set (new_blobs (queued (admission_ch n))). sendable L a" using assms(1) by (simp add: live_inv_def)
  then have "(\<forall>a. m = NewBlob a \<longrightarrow> sendable L a) \<and> (\<forall>a\<in>set (new_blobs (queued ch)). sendable L a)"
    unfolding q by (cases m) simp_all
  then show ?thesis
    using assms(1) live_pl_admission[of L "clock n" "pl n" m ho]
    by (intro live_inv_handled[OF admission_recv(3)]) (simp_all add: live_inv_def channels_ok_def)
next
  case (internal_recv ho po co m ch r)
  have "channels_ok (n\<lparr>internal_ch := ch\<rparr>)"
    using assms(1) chan_recv_same[OF internal_recv(2)] by (simp add: live_inv_def channels_ok_def)
  moreover have "live_pl L (clock n) (fst r)"
    using assms(1,2) by (intro live_pl_internal[OF _ orders_distinct[OF internal_recv(1)] _ internal_recv(3)])
      (simp_all add: live_inv_def permits_inv_def)
  ultimately show ?thesis
    using assms(1) by (intro live_inv_handled[OF internal_recv(4)]) (simp_all add: live_inv_def)
next
  case (lookup bid r st)
  show ?thesis unfolding lookup(1) using assms(1) by (simp add: live_inv_def channels_ok_def)
qed (simp_all add: live_inv_drop[OF assms(1)] live_inv_finish[OF assms(1)])

text \<open>The invariant with the ones it needs.\<close>

definition live_node :: "lib \<Rightarrow> peer_id set \<Rightarrow> peer_id \<Rightarrow> node \<Rightarrow> bool" where
  "live_node L nodes me n \<longleftrightarrow> node_inv L nodes me n \<and> (lib_ok L \<longrightarrow> live_inv L n)"

lemma live_inv_new: "live_inv L node_new"
  by (simp add: live_inv_def live_pl_def channels_ok_def node_new_def pipeline_new_def channel_new_def blobs_def)

interpretation live: invariant node_new "node_step L feed nodes me" "live_node L nodes me" for L feed nodes me
proof unfold_locales
  show "live_node L nodes me node_new"
    using node.inv_init by (simp add: live_node_def live_inv_new)
next
  fix s t assume s: "live_node L nodes me s" and step: "node_step L feed nodes me s t"
  have "node_inv L nodes me t" using s step unfolding live_node_def by (blast intro: node.inv_step)
  moreover have "live_inv L t" if "lib_ok L"
    using s that by (intro live_inv_step[OF _ _ _ _ step]) (simp_all add: live_node_def node_inv_def lib_ok_def)
  ultimately show "live_node L nodes me t" by (simp add: live_node_def)
qed

lemma live_reachable:
  assumes "reachable_node L feed nodes me n" and "lib_ok L"
  shows "live_inv L n"
  using live.inv_reachable[of L feed nodes me n] assms unfolding reachable_node_def live_node_def by blast

end
