(* ===== verification/Service.thy ===== *)
theory Service
  imports NodeCorrect
begin

text \<open>
  What a client promises to its user, as an abstract machine, and the refinement: each step of the
  running client is a step of that machine or invisible to it.
\<close>

section \<open>The abstract service\<close>

text \<open>The blobs accepted so far, and those of them that are stored.\<close>

record service =
  sv_accepted :: "admitted_blob list"
  sv_finished :: "admitted_blob list"

text \<open>
  The service accepts a blob under a valid id that it has not accepted before, with the hashes
  of its chunks, and finishes the accepted blobs one by one, in order.
\<close>

inductive service_step :: "lib \<Rightarrow> service \<Rightarrow> service \<Rightarrow> bool" for L where
  accept: "magic_type_id L (ab_id a) \<noteq> None \<Longrightarrow> admitted_ok L a \<Longrightarrow>
    canonical L a \<notin> canonical L ` set (sv_accepted s) \<Longrightarrow>
    service_step L s (s\<lparr>sv_accepted := sv_accepted s @ [a]\<rparr>)"
| finish: "sv_accepted s = sv_finished s @ a # as \<Longrightarrow>
    service_step L s (s\<lparr>sv_finished := sv_finished s @ [a]\<rparr>)"

inductive_cases service_stepE: "service_step L s t"

text \<open>The service a state of the client implements.\<close>

definition finished :: "node \<Rightarrow> admitted_blob list" where
  "finished n = take (length (handed n) -
     (length (new_blobs (queued (admission_ch n))) + length (blobs (pl n)))) (handed n)"

definition service_of :: "node \<Rightarrow> service" where
  "service_of n = \<lparr>sv_accepted = handed n, sv_finished = finished n\<rparr>"

lemma finished_eq:
  assumes "around L nodes me fin rest n" and "pl_inv L acks rest (pl n)"
  shows "finished n = fin"
proof -
  have "length rest = length (blobs (pl n))" using assms(2) by (auto simp: pl_inv_def list_all2_lengthD)
  then show ?thesis using assms(1) by (simp add: finished_def around_def)
qed

section \<open>The refinement\<close>

lemma handed_step:
  assumes "node_step L feed nodes me n n'"
  shows "handed n' = handed n \<or> (\<exists>a. handed n' = handed n @ [a])"
  using assms
proof (cases rule: node_step.cases)
  case (hand_over i c blob r st ch)
  then show ?thesis by (cases r) simp_all
qed (simp_all add: drop_upload_def finish_task_def Let_def handled_effect(8))

lemma service_refines:
  assumes "reachable_node L feed nodes me n" and "lib_ok L" and "node_step L feed nodes me n n'"
  shows "service_of n' = service_of n \<or> service_step L (service_of n) (service_of n')"
proof -
  from node_reachable[OF assms(1)] assms(2) have inv: "permits_inv n" "ids_inv L n" "blobs_inv L nodes me n"
    by (simp_all add: node_inv_def)
  have dig: "blake3_digests L" and size: "0 < chunk_size L" using assms(2) by (simp_all add: lib_ok_def)
  obtain fin rest where at: "around L nodes me fin rest n" "pl_inv L (acked n) rest (pl n)"
    using inv(3) by (auto simp: blobs_inv_def)
  from blobs_next_step[OF at inv(2,1) dig assms(3)] obtain fin' rest' where
    at': "around L nodes me fin' rest' n'" "pl_inv L (acked n') rest' (pl n')"
    and fin': "fin' = fin \<or> (\<exists>a. fin' = fin @ [a] \<and> handed n' = handed n)"
    by (auto simp: blobs_next_def)
  have sv: "service_of n = \<lparr>sv_accepted = handed n, sv_finished = fin\<rparr>"
    "service_of n' = \<lparr>sv_accepted = handed n', sv_finished = fin'\<rparr>"
    using finished_eq[OF at] finished_eq[OF at'] by (simp_all add: service_of_def)
  show ?thesis
  proof (cases "fin' = fin")
    case False
    then obtain a where a: "fin' = fin @ [a]" "handed n' = handed n" using fin' by blast
    then have "handed n = fin @ a # (rest' @ new_blobs (queued (admission_ch n')))"
      using at'(1) by (simp add: around_def)
    then have "service_step L (service_of n) ((service_of n)\<lparr>sv_finished := sv_finished (service_of n) @ [a]\<rparr>)"
      by (intro service_step.finish) (simp add: sv)
    then show ?thesis using a by (simp add: sv)
  next
    case True
    from handed_step[OF assms(3)] show ?thesis
    proof
      assume "\<exists>a. handed n' = handed n @ [a]"
      then obtain a where a: "handed n' = handed n @ [a]" by blast
      have "ids_inv L n'" using ids_inv_step[OF inv(2) size assms(3)] .
      then have "magic_type_id L (ab_id a) \<noteq> None" "admitted_ok L a"
        "canonical L a \<notin> canonical L ` set (handed n)"
        using a by (simp_all add: ids_inv_def claimed_def)
      then have "service_step L (service_of n) ((service_of n)\<lparr>sv_accepted := sv_accepted (service_of n) @ [a]\<rparr>)"
        by (intro service_step.accept) (simp_all add: sv)
      then show ?thesis using a True by (simp add: sv)
    qed (use True in \<open>simp add: sv\<close>)
  qed
qed

lemma service_new: "service_of node_new = \<lparr>sv_accepted = [], sv_finished = []\<rparr>"
  by (simp add: service_of_def finished_def node_new_def)

text \<open>Facts about the abstract service carry over: it never forgets what it accepted or finished.\<close>

lemma service_step_mono:
  assumes "service_step L s t"
  shows "prefix (sv_accepted s) (sv_accepted t) \<and> prefix (sv_finished s) (sv_finished t)"
  using assms by (auto elim!: service_stepE)

text \<open>A run of the client is a run of the service.\<close>

lemma service_run:
  assumes "(node_step L feed nodes me)\<^sup>*\<^sup>* n n'" and "reachable_node L feed nodes me n" and "lib_ok L"
  shows "(service_step L)\<^sup>*\<^sup>* (service_of n) (service_of n')"
  using assms(1)
proof (induction rule: rtranclp_induct)
  case (step x y)
  have "reachable_node L feed nodes me x"
    using assms(2) step(1) unfolding reachable_node_def by (rule reachable_run)
  from service_refines[OF this assms(3) step(2)] step(3) show ?case
    by (auto intro: rtranclp.rtrancl_into_rtrancl)
qed simp

lemma service_run_mono:
  "(service_step L)\<^sup>*\<^sup>* s t \<Longrightarrow>
     prefix (sv_accepted s) (sv_accepted t) \<and> prefix (sv_finished s) (sv_finished t)"
proof (induction rule: rtranclp_induct)
  case (step x y)
  then show ?case using service_step_mono[OF step(2)] prefix_order.trans by blast
qed simp

end
