(* ===== verification/NodeQuiet.thy ===== *)
theory NodeQuiet
  imports NodeLive Service
begin

text \<open>
  The running client is never stuck: from every reachable state it can go on by itself to a state in
  which nothing is in flight, neither a message nor an upload.
\<close>

section \<open>Handlers are not blocked\<close>

definition to_channel :: "emission \<Rightarrow> bool" where
  "to_channel e \<longleftrightarrow> (case e of ToSwarm _ \<Rightarrow> True | ToBridge _ \<Rightarrow> True | _ \<Rightarrow> False)"

definition bulk :: "emission list \<Rightarrow> nat" where
  "bulk es = length (filter to_channel es)"

lemma bulk_simps [simp]:
  "bulk [] = 0" "bulk (ToSwarm m # es) = Suc (bulk es)" "bulk (ToBridge b # es) = Suc (bulk es)"
  "bulk (Spawn t # es) = bulk es" "bulk (DropAllowance k # es) = bulk es"
  "bulk (es @ fs) = bulk es + bulk fs" "bulk (List.map Spawn ts) = 0"
  by (simp_all add: bulk_def to_channel_def filter_empty_conv)

lemma bulk_request: "bulk (snd (request_storage_permits now po q)) \<le> 1"
  by (simp add: request_storage_permits_def Let_def)

lemma bulk_begin: "bulk (snd (begin_next_blob now po q)) \<le> 1"
  using bulk_request by (auto simp: begin_next_blob_def split: list.splits)

lemma bulk_assign [simp]: "bulk (snd (assign_chunks now po co q)) = 0"
  by (auto simp: assign_chunks_def Let_def split: option.splits prod.splits)

lemma bulk_handler: "bulk (snd (on_handler_message L now po co m q)) = 0"
  by (auto simp: on_handler_message_def Let_def split: handler_message.splits response.splits)

lemma bulk_admission: "bulk (snd (on_admission now po m q)) \<le> 1"
  using bulk_begin by (auto simp: on_admission_def split: to_pipeline.splits)

lemma bulk_internal:
  assumes "on_internal now ho po co m q = Some r"
  shows "bulk (snd r) \<le> 2"
proof -
  obtain h s t where m: "m = UpdateChunkStatus h s t" by (cases m)
  from assms show ?thesis unfolding m
  proof (cases rule: on_internal_cases)
    case (archived b c begun)
    then show ?thesis using bulk_begin[of now ho "q\<lparr>current_blob := None\<rparr>"] by simp
  qed simp_all
qed

text \<open>The channels have room for what a handler sends.\<close>

definition roomy :: "node \<Rightarrow> bool" where
  "roomy n \<longleftrightarrow> rx_alive (swarm_ch n) \<and> capacity (swarm_ch n) = Some 16 \<and>
     rx_alive (bridge_ch n) \<and> capacity (bridge_ch n) = Some 128"

lemma deliver_possible:
  assumes "roomy n" and "length (queued (swarm_ch n)) + bulk es \<le> 16"
    and "length (queued (bridge_ch n)) + bulk es \<le> 128"
  shows "\<exists>n'. deliver_all es n = Some n'"
  using assms
proof (induction es arbitrary: n)
  case (Cons e es)
  have "\<exists>m. deliver e n = Some m \<and> roomy m \<and> length (queued (swarm_ch m)) + bulk es \<le> 16 \<and>
      length (queued (bridge_ch m)) + bulk es \<le> 128"
    using Cons.prems
    by (cases e) (auto simp: deliver_def send_waiting_def chan_send_def has_room_def roomy_def)
  then show ?case using Cons.IH by fastforce
qed simp

section \<open>Quiet states\<close>

definition calm :: "node \<Rightarrow> bool" where
  "calm n \<longleftrightarrow> queued (bridge_ch n) = [] \<and> queued (swarm_ch n) = [] \<and> running n = []"

definition noise :: "node \<Rightarrow> nat" where
  "noise n = length (queued (bridge_ch n)) + length (queued (swarm_ch n)) + length (running n)"

text \<open>What the steps towards a calm state leave alone.\<close>

definition same_work :: "node \<Rightarrow> node \<Rightarrow> bool" where
  "same_work n m \<longleftrightarrow> clock m = clock n \<and> handed m = handed n \<and> admission_ch m = admission_ch n \<and>
     handler_ch m = handler_ch n \<and> internal_ch m = internal_ch n \<and>
     current_blob (pl m) = current_blob (pl n) \<and> pending_local_blobs (pl m) = pending_local_blobs (pl n)"

lemma same_work_refl [simp]: "same_work n n"
  and same_work_trans: "same_work n m \<Longrightarrow> same_work m k \<Longrightarrow> same_work n k"
  by (simp_all add: same_work_def)

lemma calm_noise: "calm n \<longleftrightarrow> noise n = 0"
  by (auto simp: calm_def noise_def)

lemma calmer_step:
  assumes "\<not> calm n"
  shows "\<exists>n'. node_step L feed nodes me n n' \<and> same_work n n' \<and> noise n' < noise n"
proof -
  consider m ms where "queued (bridge_ch n) = m # ms" | m ms where "queued (swarm_ch n) = m # ms"
    | "0 < length (running n)"
    using assms by (auto simp: calm_def neq_Nil_conv)
  then show ?thesis
  proof cases
    case 1
    then have "chan_recv (bridge_ch n) = Some (m, (bridge_ch n)\<lparr>queued := ms\<rparr>)" by (simp add: chan_recv_def)
    from node_step.bridge_recv[OF this] 1 show ?thesis by (fastforce simp: same_work_def noise_def)
  next
    case 2
    then have "chan_recv (swarm_ch n) = Some (m, (swarm_ch n)\<lparr>queued := ms\<rparr>)" by (simp add: chan_recv_def)
    from node_step.swarm_recv[OF this] 2 show ?thesis by (fastforce simp: same_work_def noise_def)
  next
    case 3
    let ?n = "finish_task 0 (upload_outcome_of None) [] n"
    have "same_work n ?n" by (simp add: same_work_def finish_task_def upload_outcome_of_def upload_report_def upload_release_def)
    moreover have "noise ?n < noise n"
      using 3 length_without[OF 3] by (simp add: noise_def finish_task_def Let_def)
    ultimately show ?thesis using node_step.task_timeout[OF 3] by blast
  qed
qed

lemma calm_down: "\<exists>m. (node_step L feed nodes me)\<^sup>*\<^sup>* n m \<and> calm m \<and> same_work n m"
proof (induction "noise n" arbitrary: n rule: less_induct)
  case less
  show ?case
  proof (cases "calm n")
    case False
    from calmer_step[OF this] obtain n' where n': "node_step L feed nodes me n n'" "same_work n n'" "noise n' < noise n"
      by blast
    from less[OF n'(3)] obtain m where "(node_step L feed nodes me)\<^sup>*\<^sup>* n' m" "calm m" "same_work n' m" by blast
    with n'(1,2) show ?thesis by (meson converse_rtranclp_into_rtranclp same_work_trans)
  qed (use same_work_refl in blast)
qed

text \<open>A handler that sends at most two messages is possible in a calm state.\<close>

lemma handled_possible:
  assumes "roomy n" and "queued (bridge_ch n) = []" and "queued (swarm_ch n) = []" and "bulk (snd r) \<le> 2"
  shows "\<exists>n'. handled r n = Some n'"
  unfolding handled_def using assms by (intro deliver_possible) (simp_all add: roomy_def)

section \<open>Orders\<close>

lemma list_of_finite: "finite A \<Longrightarrow> \<exists>xs. distinct xs \<and> A \<subseteq> set xs"
  using finite_distinct_list by fastforce

text \<open>Iteration orders exist, with any chunk first.\<close>

lemma orders_exist:
  assumes "live_inv L n"
  shows "\<exists>ho po co. orders n ho po (h # co)"
proof -
  have pl: "live_pl L (clock n) (pl n)" using assms by (simp add: live_inv_def)
  obtain ho where ho: "distinct ho" "dom (storage_provider_hints (pl n)) \<subseteq> set ho"
    using pl list_of_finite unfolding live_pl_def by blast
  let ?peers = "(\<lambda>m. case m of Response p _ _ \<Rightarrow> p | WouldStore p \<Rightarrow> p | Request p _ _ \<Rightarrow> p) ` set (queued (handler_ch n))"
  have "finite (dom (storage_permits (pl n)) \<union> ?peers)" using pl by (simp add: live_pl_def)
  then obtain po where po: "distinct po" "dom (storage_permits (pl n)) \<union> ?peers \<subseteq> set po"
    using list_of_finite by blast
  let ?chunks = "\<Union>b\<in>set (blobs (pl n)). dom (lb_chunks b)"
  have "\<forall>b\<in>set (blobs (pl n)). finite (dom (lb_chunks b))"
    using pl unfolding live_pl_def chunks_ok_def by blast
  then have "finite (?chunks - {h})" by (intro finite_Diff finite_UN_I) simp_all
  then obtain co where co: "distinct co" "set co = ?chunks - {h}" using finite_distinct_list by metis
  have "p \<in> set po" if "Response p i r \<in> set (queued (handler_ch n))" for p i r
  proof -
    have "p \<in> ?peers" using that by (intro image_eqI[of _ _ "Response p i r"]) simp_all
    then show ?thesis using po(2) by blast
  qed
  moreover have "dom (lb_chunks b) \<subseteq> set (h # co)"
    if "current_blob (pl n) = Some b \<or> b \<in> set (pending_local_blobs (pl n))" for b
  proof -
    have "b \<in> set (blobs (pl n))" using that by (auto simp: blobs_def)
    then show ?thesis using co(2) by auto
  qed
  moreover have "covers ho (storage_provider_hints (pl n))" "covers po (storage_permits (pl n))" "distinct (h # co)"
    using ho po co by (simp_all add: covers_def)
  ultimately have "orders n ho po (h # co)" unfolding orders_def by blast
  then show ?thesis by blast
qed

section \<open>Settled states\<close>

text \<open>Nothing is in flight and every message to the coordinator is handled.\<close>

definition settled :: "node \<Rightarrow> bool" where
  "settled n \<longleftrightarrow> calm n \<and> queued (internal_ch n) = [] \<and> queued (handler_ch n) = [] \<and> queued (admission_ch n) = []"

definition backlog :: "node \<Rightarrow> nat" where
  "backlog n = length (queued (internal_ch n)) + length (queued (handler_ch n)) + length (queued (admission_ch n))"

lemma roomy_live: "live_inv L n \<Longrightarrow> roomy n"
  by (simp add: live_inv_def channels_ok_def roomy_def)

lemma settled_backlog: "calm n \<Longrightarrow> settled n \<longleftrightarrow> backlog n = 0"
  by (auto simp: settled_def backlog_def)

lemma settling_step:
  assumes "live_inv L n" and "calm n" and "\<not> settled n"
  shows "\<exists>n'. node_step L feed nodes me n n' \<and> clock n' = clock n \<and> handed n' = handed n \<and> backlog n' < backlog n"
proof -
  obtain ho po co where ord: "orders n ho po co" using orders_exist[OF assms(1)] by blast
  have room: "roomy n" "queued (bridge_ch n) = []" "queued (swarm_ch n) = []"
    using assms(2) roomy_live[OF assms(1)] by (simp_all add: calm_def)
  consider m ms where "queued (internal_ch n) = m # ms" | m ms where "queued (handler_ch n) = m # ms"
    | m ms where "queued (admission_ch n) = m # ms"
    using assms(2,3) by (auto simp: settled_def neq_Nil_conv)
  then show ?thesis
  proof cases
    case 1
    let ?n = "n\<lparr>internal_ch := (internal_ch n)\<lparr>queued := ms\<rparr>\<rparr>"
    obtain r where r: "on_internal (clock n) ho po co m (pl n) = Some r" using on_internal_no_panic by blast
    from handled_possible[of ?n r] bulk_internal[OF r] room
    obtain n' where n': "handled r ?n = Some n'" by (auto simp: roomy_def)
    have "node_step L feed nodes me n n'"
      using ord r n' 1 by (intro node_step.internal_recv[of n ho po co m "(internal_ch n)\<lparr>queued := ms\<rparr>" r])
        (simp_all add: chan_recv_def)
    with handled_effect[OF n'] 1 show ?thesis by (auto simp: backlog_def)
  next
    case 2
    let ?n = "n\<lparr>handler_ch := (handler_ch n)\<lparr>queued := ms\<rparr>\<rparr>"
    let ?r = "on_handler_message L (clock n) po co m (pl n)"
    from handled_possible[of ?n ?r] bulk_handler[of L "clock n" po co m "pl n"] room
    obtain n' where n': "handled ?r ?n = Some n'" by (auto simp: roomy_def)
    have "node_step L feed nodes me n n'"
      using ord n' 2 by (intro node_step.handler_recv[of n ho po co m "(handler_ch n)\<lparr>queued := ms\<rparr>"])
        (simp_all add: chan_recv_def)
    with handled_effect[OF n'] 2 show ?thesis by (auto simp: backlog_def)
  next
    case 3
    let ?n = "n\<lparr>admission_ch := (admission_ch n)\<lparr>queued := ms\<rparr>\<rparr>"
    let ?r = "on_admission (clock n) ho m (pl n)"
    have "bulk (snd ?r) \<le> 2" using bulk_admission[of "clock n" ho m "pl n"] by simp
    from handled_possible[OF _ _ _ this, of ?n] room
    obtain n' where n': "handled ?r ?n = Some n'" by (auto simp: roomy_def)
    have "node_step L feed nodes me n n'"
      using ord n' 3 by (intro node_step.admission_recv[of n ho po co m "(admission_ch n)\<lparr>queued := ms\<rparr>"])
        (simp_all add: chan_recv_def)
    with handled_effect[OF n'] 3 show ?thesis by (auto simp: backlog_def)
  qed
qed

lemma live_run: "(node_step L feed nodes me)\<^sup>*\<^sup>* n m \<Longrightarrow> live_node L nodes me n \<Longrightarrow> live_node L nodes me m"
  by (rule live.inv_run)

lemma live_nodeD:
  assumes "live_node L nodes me n" and "lib_ok L"
  shows "live_inv L n" "permits_inv n" "blobs_inv L nodes me n"
  using assms by (simp_all add: live_node_def node_inv_def)

lemma settle:
  assumes "live_node L nodes me n" and "lib_ok L"
  shows "\<exists>m. (node_step L feed nodes me)\<^sup>*\<^sup>* n m \<and> settled m \<and> clock m = clock n \<and> handed m = handed n"
  using assms(1)
proof (induction "backlog n" arbitrary: n rule: less_induct)
  case less
  obtain k where k: "(node_step L feed nodes me)\<^sup>*\<^sup>* n k" "calm k" "same_work n k" using calm_down by blast
  have logs: "backlog k = backlog n" "clock k = clock n" "handed k = handed n"
    using k(3) by (simp_all add: same_work_def backlog_def)
  have live: "live_node L nodes me k" using k(1) less.prems by (rule live_run)
  show ?case
  proof (cases "settled k")
    case False
    from settling_step[OF live_nodeD(1)[OF live assms(2)] k(2) False, of feed nodes me] obtain n' where
      n': "node_step L feed nodes me k n'" "clock n' = clock k" "handed n' = handed k" "backlog n' < backlog k" by blast
    have "live_node L nodes me n'" using live.inv_step[OF live n'(1)] .
    from less.hyps[OF _ this] n'(4) logs(1) obtain m where
      m: "(node_step L feed nodes me)\<^sup>*\<^sup>* n' m" "settled m" "clock m = clock n'" "handed m = handed n'" by auto
    have "(node_step L feed nodes me)\<^sup>*\<^sup>* n m" using k(1) n'(1) m(1) by (meson converse_rtranclp_into_rtranclp rtranclp_trans)
    with m n'(2,3) logs(2,3) show ?thesis by auto
  qed (use k logs in blast)
qed

end
