(* ===== verification/NodeReports.thy ===== *)
theory NodeReports
  imports NodeLive Service
begin

text \<open>
  What is finished is also reported: the bridge still has to hear of the blob or shows it as
  \<open>Finalized\<close>. This holds for blobs that were posted under their canonical id, the only ids under which
  the bridge keeps a status.
\<close>

definition told :: "node \<Rightarrow> blob_id \<Rightarrow> bool" where
  "told n i \<longleftrightarrow> UpdateStatus i Finalized \<in> set (queued (bridge_ch n)) \<or>
     get_status (bridge n) i = Some (OK, Some Finalized)"

definition reports_inv :: "lib \<Rightarrow> node \<Rightarrow> bool" where
  "reports_inv L n \<longleftrightarrow>
     (\<forall>a\<in>set (finished n). magic_type_id L (ab_id a) = Some (ab_id a) \<longrightarrow> told n (ab_id a))"

lemma get_status_cong: "status_map st' i = status_map st i \<Longrightarrow> get_status st' i = get_status st i"
  by (simp add: get_status_def)

lemma told_frame:
  assumes "told n i" and "status_map (bridge n') i = status_map (bridge n) i"
    and "set (queued (bridge_ch n)) \<subseteq> set (queued (bridge_ch n'))"
  shows "told n' i"
  using assms get_status_cong[OF assms(2)] by (auto simp: told_def)

text \<open>An update of another blob does not touch the status, and one of this blob finalizes it.\<close>

lemma get_status_message:
  assumes "status_map st i \<noteq> None"
  shows "get_status (bridge_message now (UpdateStatus j Finalized) st) i =
    (if i = j then Some (OK, Some Finalized) else get_status st i)"
  using assms by (auto simp: get_status_def bridge_message_def last_status_def split: option.splits)

lemma told_recv:
  assumes "told n i" and "chan_recv (bridge_ch n) = Some (UpdateStatus j Finalized, ch)"
    and "status_map (bridge n) i \<noteq> None"
  shows "told (n\<lparr>bridge_ch := ch, bridge := bridge_message now (UpdateStatus j Finalized) (bridge n)\<rparr>) i"
  using assms(1) chan.get_contents[OF assms(2)] by (auto simp: told_def get_status_message[OF assms(3)])

text \<open>The ids of the accepted blobs are safe in the table.\<close>

lemma claimed_entry:
  assumes "ids_inv L n" and "a \<in> set (handed n)" and "magic_type_id L (ab_id a) = Some (ab_id a)"
  shows "status_map (bridge n) (ab_id a) \<noteq> None" "\<forall>u\<in>set (uploads n). adm_id (up_admission u) \<noteq> ab_id a"
proof -
  have "canonical L a = ab_id a" using assms(3) by (simp add: canonical_def)
  then have "ab_id a \<in> set (List.map (canonical L) (handed n))" using assms(2) by force
  then show "status_map (bridge n) (ab_id a) \<noteq> None" "\<forall>u\<in>set (uploads n). adm_id (up_admission u) \<noteq> ab_id a"
    using assms(1) by (auto simp: ids_inv_def claimed_def)
qed

lemma upload_drop_other:
  "adm_id (up_admission u) \<noteq> i \<Longrightarrow> status_map (upload_drop u st) i = status_map st i"
  by (simp add: upload_drop_def admission_drop_def)

lemma admit_other:
  assumes "new_blob_admit L now bid hdr st = (r, st')" and "status_map st i \<noteq> None"
  shows "status_map st' i = status_map st i"
proof (cases r)
  case (Inl code)
  then show ?thesis using assms(1) upload.acquire_failed by metis
next
  case (Inr u)
  then have "new_blob_admit L now bid hdr st = (Inr u, st')" using assms(1) by simp
  then obtain vid b where "status_map st vid = None"
    "st' = st\<lparr>status_map := (status_map st)(vid \<mapsto> [pending_at now]), admission_budget := b\<rparr>"
    by (elim new_blob_admit_Inr) blast
  then show ?thesis using assms(2) by auto
qed

lemma lookup_other:
  "get_blob_entry L now bid st = (r, st') \<Longrightarrow> status_map st i \<noteq> None \<Longrightarrow> status_map st' i = status_map st i"
  by (auto simp: get_blob_entry_def split: option.splits)

lemma told_drop:
  assumes "told n i" and "\<forall>u\<in>set (uploads n). adm_id (up_admission u) \<noteq> i" and "j < length (uploads n)"
  shows "told (drop_upload j n) i"
proof (rule told_frame[OF assms(1)])
  have "uploads n ! j \<in> set (uploads n)" using assms(3) by simp
  then show "status_map (bridge (drop_upload j n)) i = status_map (bridge n) i"
    using assms(2) upload_drop_other by (simp add: drop_upload_def)
qed (simp add: drop_upload_def)

lemma told_handled: "told n i \<Longrightarrow> handled r n = Some n' \<Longrightarrow> told n' i"
  using told_frame[of n i n'] handled_effect(13)[of r n n'] handled_told(1)[of r n n'] by simp

text \<open>What a blob is told as stays so in every step.\<close>

lemma told_step:
  assumes "told n (ab_id a)" and "ids_inv L n" and "a \<in> set (handed n)"
    and "magic_type_id L (ab_id a) = Some (ab_id a)"
    and "\<forall>m\<in>set (queued (bridge_ch n)). \<exists>i. m = UpdateStatus i Finalized"
    and "node_step L feed nodes me n n'"
  shows "told n' (ab_id a)"
proof -
  note entry = claimed_entry[OF assms(2-4)]
  note frame = told_frame[OF assms(1)]
  from assms(6) show ?thesis
  proof (cases rule: node_step.cases)
    case (admit bid hdr r st)
    show ?thesis unfolding admit(1) using admit_other[OF admit(2) entry(1)] by (intro frame) simp_all
  next
    case (body_failed i c ev code)
    show ?thesis unfolding body_failed(1) by (rule told_drop[OF assms(1) entry(2) body_failed(2)])
  next
    case (disconnected i)
    show ?thesis unfolding disconnected(1) by (rule told_drop[OF assms(1) entry(2) disconnected(2)])
  next
    case (finish_failed i c code)
    show ?thesis unfolding finish_failed(1) by (rule told_drop[OF assms(1) entry(2) finish_failed(2)])
  next
    case (hand_over i c blob r st ch)
    have "uploads n ! i \<in> set (uploads n)" using hand_over(2) by simp
    then have "status_map st (ab_id a) = status_map (bridge n) (ab_id a)"
      using hand_over(4) entry(2) upload_drop_other
      by (auto simp: new_blob_send_def admission_drop_def admission_commit_def split: sent.splits)
    then show ?thesis unfolding hand_over(1) by (intro frame) simp_all
  next
    case (lookup bid r st)
    show ?thesis unfolding lookup(1) using lookup_other[OF lookup(2) entry(1)] by (intro frame) simp_all
  next
    case (bridge_recv m ch)
    have "m \<in> set (queued (bridge_ch n))" using chan.get_contents[OF bridge_recv(2)] by simp
    then obtain j where "m = UpdateStatus j Finalized" using assms(5) by blast
    then show ?thesis unfolding bridge_recv(1) using told_recv[OF assms(1) _ entry(1)] bridge_recv(2) by simp
  next
    case (stale ho po co)
    show ?thesis using assms(1) stale(2) by (rule told_handled)
  next
    case (assign ho po co)
    show ?thesis using assms(1) assign(2) by (rule told_handled)
  next
    case (handler_recv ho po co m ch)
    have "told (n\<lparr>handler_ch := ch\<rparr>) (ab_id a)" by (intro frame) simp_all
    then show ?thesis using handler_recv(3) by (rule told_handled)
  next
    case (admission_recv ho po co m ch)
    have "told (n\<lparr>admission_ch := ch\<rparr>) (ab_id a)" by (intro frame) simp_all
    then show ?thesis using admission_recv(3) by (rule told_handled)
  next
    case (internal_recv ho po co m ch r)
    have "told (n\<lparr>internal_ch := ch\<rparr>) (ab_id a)" by (intro frame) simp_all
    then show ?thesis using internal_recv(4) by (rule told_handled)
  qed (auto intro!: frame simp: finish_task_def Let_def)
qed

section \<open>The invariant\<close>

definition reporting :: "lib \<Rightarrow> peer_id set \<Rightarrow> peer_id \<Rightarrow> node \<Rightarrow> bool" where
  "reporting L nodes me n \<longleftrightarrow> live_node L nodes me n \<and> (lib_ok L \<longrightarrow> reports_inv L n)"

lemma reports_inv_step:
  assumes "live_node L nodes me n" and "lib_ok L" and "reports_inv L n" and "node_step L feed nodes me n n'"
  shows "reports_inv L n'"
  unfolding reports_inv_def
proof (intro ballI impI)
  have inv: "permits_inv n" "ids_inv L n" "blobs_inv L nodes me n" "blake3_digests L"
    using assms(1,2) by (simp_all add: live_node_def node_inv_def lib_ok_def)
  obtain fin rest where at: "around L nodes me fin rest n" "pl_inv L (acked n) rest (pl n)"
    using inv(3) by (auto simp: blobs_inv_def)
  from blobs_next_step[OF at inv(2,1,4) assms(4)] obtain fin' rest' where
    at': "around L nodes me fin' rest' n'" "pl_inv L (acked n') rest' (pl n')"
    and fin': "fin' = fin \<or> (\<exists>a. fin' = fin @ [a] \<and> handed n' = handed n \<and>
      (rx_alive (bridge_ch n') \<longrightarrow> UpdateStatus (ab_id a) Finalized \<in> set (queued (bridge_ch n'))))"
    by (auto simp: blobs_next_def)
  have "live_node L nodes me n'" using live.inv_step[OF assms(1,4)] .
  then have alive: "rx_alive (bridge_ch n')" using assms(2) by (simp add: live_node_def live_inv_def channels_ok_def)
  fix a assume a: "a \<in> set (finished n')" "magic_type_id L (ab_id a) = Some (ab_id a)"
  have "a \<in> set fin'" using a(1) finished_eq[OF at'] by simp
  then consider "a \<in> set fin" | "UpdateStatus (ab_id a) Finalized \<in> set (queued (bridge_ch n'))"
    using fin' alive by auto
  then show "told n' (ab_id a)"
  proof cases
    case 1
    then have "told n (ab_id a)" "a \<in> set (handed n)"
      using assms(3) a(2) finished_eq[OF at] at(1) by (auto simp: reports_inv_def around_def)
    moreover have "\<forall>m\<in>set (queued (bridge_ch n)). \<exists>i. m = UpdateStatus i Finalized"
      using at(1) by (auto simp: around_def)
    ultimately show ?thesis using told_step[OF _ inv(2) _ a(2) _ assms(4)] by blast
  qed (simp add: told_def)
qed

interpretation reports: invariant node_new "node_step L feed nodes me" "reporting L nodes me" for L feed nodes me
proof unfold_locales
  show "reporting L nodes me node_new"
    using live.inv_init by (simp add: reporting_def reports_inv_def finished_def node_new_def)
next
  fix s t assume s: "reporting L nodes me s" and step: "node_step L feed nodes me s t"
  then have "live_node L nodes me t" using live.inv_step unfolding reporting_def by blast
  then show "reporting L nodes me t"
    using s reports_inv_step[OF _ _ _ step] by (simp add: reporting_def)
qed

lemma reports_reachable:
  assumes "reachable_node L feed nodes me n" and "lib_ok L"
  shows "reports_inv L n"
  using reports.inv_reachable[of L feed nodes me n] assms unfolding reachable_node_def reporting_def by blast

end
