(* ===== verification/NodeProgress.thy ===== *)
theory NodeProgress
  imports NodeQuiet NodeReports
begin

text \<open>
  From a state in which nothing is in flight, a peer that grants a permit and acknowledges a push
  brings the current blob one chunk further. Repeating this finishes every accepted blob.
\<close>

section \<open>Chunks still to be acknowledged\<close>

lemma eligible_unfinished: "h \<in> set (eligible_chunks now co m) \<Longrightarrow> h \<in> unfinished m"
  by (auto simp: eligible_chunks_def unfinished_def is_eligible_def split: option.splits)

lemma unfinished_start:
  "task_hash ` set ts \<subseteq> unfinished m \<Longrightarrow> unfinished (fold start_task ts m) = unfinished m"
proof (induction ts arbitrary: m)
  case (Cons t ts)
  then obtain c where c: "m (task_hash t) = Some c" by (auto simp: unfinished_def)
  have "unfinished (start_task t m) = insert (task_hash t) (unfinished m)"
    using unfinished_status[of m "task_hash t" c, OF c] c by (simp add: start_task_def)
  then have "unfinished (start_task t m) = unfinished m" using Cons.prems by auto
  then show ?case using Cons.IH[of "start_task t m"] Cons.prems by simp
qed simp

lemma chosen_unfinished: "task_hash ` set (chosen_tasks now po co q b) \<subseteq> unfinished (lb_chunks b)"
proof (cases "eligible_peers now po q = []")
  case False
  have "set (take k (eligible_chunks now co (lb_chunks b))) \<subseteq> unfinished (lb_chunks b)" for k
    using eligible_unfinished by (meson in_set_takeD subsetI)
  then show ?thesis
    unfolding set_map[symmetric] chosen_task_hashes[OF False] by blast
qed (simp add: chosen_tasks_def)

lemma assign_unfinished:
  assumes "current_blob q = Some b" and "distinct co" and "\<not> sem_closed (upload_allowance q)"
  shows "\<exists>b'. current_blob (fst (assign_chunks now po co q)) = Some b' \<and>
    unfinished (lb_chunks b') = unfinished (lb_chunks b)"
  using unfinished_start[OF chosen_unfinished] by (simp add: assign_chunks_spec[OF assms])

lemma assign_pending: "pending_local_blobs (fst (assign_chunks now po co q)) = pending_local_blobs q"
  by (auto simp: assign_chunks_def Let_def split: option.splits prod.splits)

lemma assign_length: "length (blobs (fst (assign_chunks now po co q))) = length (blobs q)"
  by (auto simp: assign_chunks_def Let_def blobs_def split: option.splits prod.splits)

section \<open>A permit starts an upload\<close>

lemma stale_eligible:
  assumes "chunks_ok L now m" and "h \<in> unfinished m" and "nanos later = nanos now + from_secs 31"
  shows "\<exists>c. m h = Some c \<and> is_eligible later c \<and> length (ch_data c) \<le> chunk_size L"
proof -
  obtain c where c: "m h = Some c" "\<forall>p. cs_status (ch_status c) \<noteq> ChunkFinalized p"
    using assms(2) by (auto simp: unfinished_def)
  then have at: "cs_at (ch_status c) \<le> now" "length (ch_data c) \<le> chunk_size L"
    using assms(1) unfolding chunks_ok_def by blast+
  then have "from_secs (CHUNK_UPLOAD_WINDOW + 1) \<le> duration_since later (cs_at (ch_status c))"
    using assms(3) by (simp add: duration_since_def less_eq_instant_def CHUNK_UPLOAD_WINDOW_def)
  then have "as_secs (duration_since later (cs_at (ch_status c))) > CHUNK_UPLOAD_WINDOW"
    unfolding as_secs_gt_iff .
  then have "is_eligible later c" using c(2) by (auto simp: is_eligible_def split: chunk_upload_status.splits)
  with c(1) at(2) show ?thesis by blast
qed

text \<open>The first task of an assignment is for the first chunk of the map, if that is eligible.\<close>

lemma first_task:
  assumes "p \<in> set (eligible_peers now po q)" and "0 < available_permits (upload_allowance q)"
    and "lb_chunks b h = Some c" and "is_eligible now c"
  shows "\<exists>t ts. chosen_tasks now po (h # co) q b = t # ts \<and> task_hash t = h \<and> task_payload t = ch_data c"
proof -
  obtain k where k: "available_permits (upload_allowance q) = Suc k" using assms(2) by (cases "available_permits (upload_allowance q)") simp_all
  have "eligible_chunks now (h # co) (lb_chunks b) = h # eligible_chunks now co (lb_chunks b)"
    using assms(3,4) by (simp add: eligible_chunks_def)
  moreover have "eligible_peers now po q \<noteq> []" using assms(1) by auto
  ultimately show ?thesis using assms(3) by (simp add: chosen_tasks_def k)
qed

text \<open>No message waits to be handled.\<close>

definition idle :: "node \<Rightarrow> bool" where
  "idle n \<longleftrightarrow> queued (internal_ch n) = [] \<and> queued (handler_ch n) = [] \<and> queued (admission_ch n) = []"

lemma settled_idle: "settled n \<longleftrightarrow> calm n \<and> idle n"
  by (auto simp: settled_def idle_def)

text \<open>The handling of a grant.\<close>

lemma grant_assigns:
  assumes "nanos now + from_secs (unat secs) \<le> instant_max L" and "0 < unat secs" and "p \<in> set po"
  shows "\<exists>q'. on_handler_message L now po co (Response p i (IssuedStoragePermit secs)) q = assign_chunks now po co q' \<and>
    p \<in> set (eligible_peers now po q') \<and> current_blob q' = current_blob q \<and>
    pending_local_blobs q' = pending_local_blobs q \<and> upload_allowance q' = upload_allowance q"
proof -
  let ?e = "Instant (nanos now + from_secs (unat secs))"
  have "checked_add L now (from_secs (unat secs)) = Some ?e" using assms(1) by (simp add: checked_add_def)
  moreover have "now < ?e" using assms(2) by (simp add: less_instant_def from_secs_def)
  ultimately show ?thesis using assms(3)
    by (intro exI[of _ "q\<lparr>storage_permits := (storage_permits q)(p \<mapsto> ?e)\<rparr>"])
      (simp add: on_handler_message_def eligible_peers_def)
qed

lemma granted:
  assumes "live_node L nodes me n" and "lib_ok L" and "settled n"
    and b: "current_blob (pl n) = Some b" "h \<in> unfinished (lb_chunks b)"
    and feed: "feed (Response p i (IssuedStoragePermit secs))" "0 < unat secs"
    and time: "nanos (clock n) + from_secs (31 + unat secs) \<le> instant_max L"
  shows "\<exists>m t ts b1. (node_step L feed nodes me)\<^sup>*\<^sup>* n m \<and> running m = t # ts \<and> task_hash t = h \<and>
    length (task_payload t) \<le> chunk_size L \<and> nanos (clock m) = nanos (clock n) + from_secs 31 \<and>
    handed m = handed n \<and> idle m \<and> length (blobs (pl m)) = length (blobs (pl n)) \<and>
    current_blob (pl m) = Some b1 \<and> unfinished (lb_chunks b1) = unfinished (lb_chunks b)"
proof -
  let ?T = "Instant (nanos (clock n) + from_secs 31)"
  let ?msg = "Response p i (IssuedStoragePermit secs)"
  let ?n1 = "n\<lparr>clock := ?T\<rparr>"
  let ?n2 = "?n1\<lparr>handler_ch := (handler_ch n)\<lparr>queued := [?msg]\<rparr>\<rparr>"
  let ?n3 = "?n2\<lparr>handler_ch := (handler_ch n)\<lparr>queued := []\<rparr>\<rparr>"
  note live = live_nodeD[OF assms(1,2)]
  have idle: "queued (internal_ch n) = []" "queued (handler_ch n) = []" "queued (admission_ch n) = []"
    "queued (bridge_ch n) = []" "queued (swarm_ch n) = []" "running n = []"
    using assms(3) by (simp_all add: settled_def calm_def)
  have step1: "node_step L feed nodes me n ?n1" by (rule node_step.time) (simp add: less_eq_instant_def)
  have "chan_send ?msg (handler_ch ?n1) = Sent ((handler_ch n)\<lparr>queued := [?msg]\<rparr>)"
    using live(1) idle(2) by (simp add: chan_send_def has_room_def live_inv_def channels_ok_def)
  from node_step.feeds[of feed, OF feed(1) this] have step2: "node_step L feed nodes me ?n1 ?n2" by simp
  have "live_node L nodes me ?n2" using live.inv_step[OF live.inv_step[OF assms(1) step1] step2] .
  then have live2: "live_inv L ?n2" using assms(2) by (simp add: live_node_def)
  obtain ho po co where ord: "orders ?n2 ho po (h # co)" using orders_exist[OF live2] by blast
  have p: "p \<in> set po" using ord unfolding orders_def by simp
  have "nanos ?T + from_secs (unat secs) \<le> instant_max L" using time by (simp add: from_secs_def)
  from grant_assigns[OF this feed(2) p, of "h # co" i "pl n"] obtain q where
    q: "on_handler_message L ?T po (h # co) ?msg (pl n) = assign_chunks ?T po (h # co) q"
      "p \<in> set (eligible_peers ?T po q)" "current_blob q = Some b"
      "pending_local_blobs q = pending_local_blobs (pl n)" "upload_allowance q = upload_allowance (pl n)"
    using b(1) by auto
  let ?r = "assign_chunks ?T po (h # co) q"
  have opn: "\<not> sem_closed (upload_allowance q)" "0 < available_permits (upload_allowance q)"
    using live(2) idle(6) q(5) by (simp_all add: permits_inv_def)
  have "\<exists>n'. handled ?r ?n3 = Some n'"
    using idle(4,5) roomy_live[OF live(1)] by (intro handled_possible) (simp_all add: roomy_def)
  then obtain n' where n': "handled ?r ?n3 = Some n'" by blast
  have step3: "node_step L feed nodes me ?n2 n'"
  proof (rule node_step.handler_recv[OF ord])
    show "chan_recv (handler_ch ?n2) = Some (?msg, (handler_ch n)\<lparr>queued := []\<rparr>)" by (simp add: chan_recv_def)
    show "handled (on_handler_message L (clock ?n2) po (h # co) ?msg (pl ?n2))
        (?n2\<lparr>handler_ch := (handler_ch n)\<lparr>queued := []\<rparr>\<rparr>) = Some n'"
      using n' q(1) by simp
  qed
  note eff = handled_effect[OF n']
  have "chunks_ok L (clock n) (lb_chunks b)" using live(1) b(1) by (simp add: live_inv_def live_pl_def blobs_def)
  from stale_eligible[OF this b(2), of ?T] obtain c where
    c: "lb_chunks b h = Some c" "is_eligible ?T c" "length (ch_data c) \<le> chunk_size L" by auto
  from first_task[OF q(2) opn(2) c(1,2)] obtain t ts where
    t: "chosen_tasks ?T po (h # co) q b = t # ts" "task_hash t = h" "task_payload t = ch_data c" by blast
  have run: "running n' = t # ts"
    using eff(12) idle(6) assign_chunks_spec[OF q(3) orders_distinct[OF ord] opn(1), of ?T po] t(1) by simp
  from assign_unfinished[OF q(3) orders_distinct[OF ord] opn(1), of ?T po] obtain b1 where
    b1: "current_blob (pl n') = Some b1" "unfinished (lb_chunks b1) = unfinished (lb_chunks b)"
    unfolding eff(1) by blast
  have len: "length (blobs (pl n')) = length (blobs (pl n))"
    unfolding eff(1) assign_length using q(3,4) b(1) by (simp add: blobs_def)
  have "(node_step L feed nodes me)\<^sup>*\<^sup>* n n'"
    using step1 step2 step3 by (meson converse_rtranclp_into_rtranclp rtranclp.rtrancl_refl)
  with run t c(3) b1 len eff idle show ?thesis
    by (intro exI[of _ n'] exI[of _ t] exI[of _ ts] exI[of _ b1]) (simp add: idle_def)
qed

section \<open>A push that succeeds\<close>

lemma push_works:
  assumes "wf_hash h" and "length d \<le> m" and "length d < 2 ^ 32" and "blake3 L d = h"
  shows "\<exists>sc sc' evs ss ss'. tx sc = [] \<and> push True p h d sc = (Inr (), sc', evs) \<and>
    handle_incoming_push L me m ss = (Inr (), ss', [\<lparr>push_peer = me, push_hash = h, push_data = d\<rparr>]) \<and>
    tx ss = [] \<and> prefix (rx ss) (tx sc') \<and> prefix (rx sc) (tx ss')"
proof -
  let ?wire = "frame_bytes h @ frame_bytes d"
  let ?sc = "\<lparr>rx = [1], tx = [], wr_left = None, close_ok = True\<rparr>"
  let ?ss = "\<lparr>rx = ?wire, tx = [], wr_left = None, close_ok = True\<rparr>"
  have "read_push m ?ss = (Inr (h, d), ?ss\<lparr>rx := []\<rparr>)"
    using assms by (simp add: read_push_Inr frame_fits_def)
  then have srv: "handle_incoming_push L me m ?ss = (Inr (), ?ss\<lparr>rx := [], tx := [1]\<rparr>,
      [\<lparr>push_peer = me, push_hash = h, push_data = d\<rparr>])"
    using assms(4) by (simp add: handle_incoming_push_def write_all_ok)
  have "write_frame h ?sc = (Inr (), ?sc\<lparr>tx := frame_bytes h\<rparr>)"
    "write_frame d (?sc\<lparr>tx := frame_bytes h\<rparr>) = (Inr (), ?sc\<lparr>tx := ?wire\<rparr>)"
    using assms by (simp_all add: write_frame_ok wf_hash_def)
  then have "push_exchange h d ?sc = (Inr (Inr ()), ?sc\<lparr>tx := ?wire, rx := []\<rparr>)"
    by (simp add: push_exchange_def and_then_def read_exact_def io_return_def)
  then obtain evs where "push True p h d ?sc = (Inr (), ?sc\<lparr>tx := ?wire, rx := []\<rparr>, evs)" by (simp add: push_def)
  with srv show ?thesis
    by (intro exI[of _ ?sc] exI[of _ "?sc\<lparr>tx := ?wire, rx := []\<rparr>"] exI[of _ evs] exI[of _ ?ss]
        exI[of _ "?ss\<lparr>rx := [], tx := [1]\<rparr>"]) simp
qed

text \<open>So an upload can end with an acknowledgement, whoever the peer is.\<close>

lemma acknowledged:
  assumes "live_node L nodes me n" and "lib_ok L" and "chunk_size L < 2 ^ 32"
    and run: "running n = t # ts" "length (task_payload t) \<le> chunk_size L" and "idle n"
  shows "\<exists>k. (node_step L feed nodes me)\<^sup>*\<^sup>* n k \<and> calm k \<and> queued (handler_ch k) = [] \<and>
    queued (admission_ch k) = [] \<and> clock k = clock n \<and> handed k = handed n \<and>
    current_blob (pl k) = current_blob (pl n) \<and> pending_local_blobs (pl k) = pending_local_blobs (pl n) \<and>
    queued (internal_ch k) = [UpdateChunkStatus (task_hash t) (ChunkFinalized (task_peer t)) (clock n)]"
proof -
  note live = live_nodeD[OF assms(1,2)]
  have hash: "blake3 L (task_payload t) = task_hash t"
    using live(3) run(1) by (auto simp: blobs_inv_def around_def)
  have wf: "wf_hash (task_hash t)" using assms(2) hash by (metis lib_ok_def blake3_digests_def)
  have "length (task_payload t) < 2 ^ 32" using run(2) assms(3) by simp
  from push_works[OF wf run(2) this hash, of "task_peer t" me] obtain sc sc' evs ss ss' where
    push: "tx sc = []" "push True (task_peer t) (task_hash t) (task_payload t) sc = (Inr (), sc', evs)"
    and srv: "handle_incoming_push L me (chunk_size L) ss =
        (Inr (), ss', [\<lparr>push_peer = me, push_hash = task_hash t, push_data = task_payload t\<rparr>])"
      "tx ss = []" "prefix (rx ss) (tx sc')" "prefix (rx sc) (tx ss')" by blast
  let ?del = "[\<lparr>push_peer = me, push_hash = task_hash t, push_data = task_payload t\<rparr>]"
  let ?n = "finish_task 0 (upload_outcome_of (Some (Inr ()))) ?del n"
  have step: "node_step L feed nodes me n ?n"
  proof (rule node_step.task_end[of 0 n t sc True])
    show "served L nodes me (task_peer t) sc sc' ?del" unfolding served_def using srv by blast
  qed (use run(1) push in simp_all)
  have "rx_alive (internal_ch n)" "capacity (internal_ch n) = None"
    using live(1) by (simp_all add: live_inv_def channels_ok_def)
  then have rep: "queued (internal_ch ?n) = [UpdateChunkStatus (task_hash t) (ChunkFinalized (task_peer t)) (clock n)]"
    using assms(6) run(1)
    by (simp add: idle_def finish_task_def upload_outcome_of_def upload_report_def Let_def chan_try_send_def
        chan_send_def has_room_def)
  have same: "clock ?n = clock n" "handed ?n = handed n" "handler_ch ?n = handler_ch n" "admission_ch ?n = admission_ch n"
    "current_blob (pl ?n) = current_blob (pl n)" "pending_local_blobs (pl ?n) = pending_local_blobs (pl n)"
    by (simp_all add: finish_task_def Let_def upload_release_def)
  obtain k where k: "(node_step L feed nodes me)\<^sup>*\<^sup>* ?n k" "calm k" "same_work ?n k" using calm_down by blast
  have "(node_step L feed nodes me)\<^sup>*\<^sup>* n k" using step k(1) by (rule converse_rtranclp_into_rtranclp)
  with k(2,3) rep same assms(6) show ?thesis unfolding same_work_def idle_def by (intro exI[of _ k]) simp
qed

section \<open>The report of an acknowledged chunk\<close>

text \<open>What one report of an unfinished chunk does to the pipeline: the blob is finished or goes on without it.\<close>

definition advanced :: "hash \<Rightarrow> local_blob \<Rightarrow> nat \<Rightarrow> pipeline \<Rightarrow> bool" where
  "advanced h b k q \<longleftrightarrow> Suc (length (blobs q)) = k \<or>
     (length (blobs q) = k \<and>
       (\<exists>b'. current_blob q = Some b' \<and> unfinished (lb_chunks b') = unfinished (lb_chunks b) - {h}))"

lemma advanced_cong:
  "current_blob q' = current_blob q \<Longrightarrow> pending_local_blobs q' = pending_local_blobs q \<Longrightarrow>
     advanced h b k q' = advanced h b k q"
  by (simp add: advanced_def blobs_def)

lemma internal_advances:
  assumes "current_blob q = Some b" and "h \<in> unfinished (lb_chunks b)" and "distinct co"
    and "\<not> sem_closed (upload_allowance q)"
    and "on_internal now ho po co (UpdateChunkStatus h (ChunkFinalized p) t) q = Some r"
  shows "advanced h b (length (blobs q)) (fst r)"
proof -
  obtain c where c: "lb_chunks b h = Some c" using assms(2) by (auto simp: unfinished_def)
  from assms(5) show ?thesis
  proof (cases rule: on_internal_cases)
    case (progress b' c')
    let ?q = "q\<lparr>current_blob := Some (noted now h (ChunkFinalized p) b c)\<rparr>"
    have r: "r = assign_chunks now po co ?q" using progress(1,2,4) assms(1) c by simp
    have "unfinished (lb_chunks (noted now h (ChunkFinalized p) b c)) = unfinished (lb_chunks b) - {h}"
      using unfinished_status[of "lb_chunks b" h c now "ChunkFinalized p", OF c] by simp
    moreover have "\<exists>b'. current_blob (fst r) = Some b' \<and>
        unfinished (lb_chunks b') = unfinished (lb_chunks (noted now h (ChunkFinalized p) b c))"
      unfolding r using assms(3,4) by (intro assign_unfinished) simp_all
    moreover have "length (blobs (fst r)) = length (blobs q)"
      unfolding r assign_length using assms(1) by (simp add: blobs_def)
    ultimately show ?thesis by (simp add: advanced_def)
  next
    case (archived b' c' begun)
    have "Suc (length (blobs (fst r))) = length (blobs q)"
      using assms(1) by (simp add: archived(4,5) assign_length blobs_begin) (simp add: blobs_def)
    then show ?thesis by (simp add: advanced_def)
  qed (use assms(1) c in auto)
qed

lemma recorded:
  assumes "live_node L nodes me k" and "lib_ok L" and "calm k" and "queued (handler_ch k) = []"
    and "queued (admission_ch k) = []" and "queued (internal_ch k) = [UpdateChunkStatus h (ChunkFinalized p) t]"
    and b: "current_blob (pl k) = Some b" "h \<in> unfinished (lb_chunks b)"
  shows "\<exists>m. (node_step L feed nodes me)\<^sup>*\<^sup>* k m \<and> settled m \<and> clock m = clock k \<and> handed m = handed k \<and>
    advanced h b (length (blobs (pl k))) (pl m)"
proof -
  note live = live_nodeD[OF assms(1,2)]
  let ?msg = "UpdateChunkStatus h (ChunkFinalized p) t"
  let ?k = "k\<lparr>internal_ch := (internal_ch k)\<lparr>queued := []\<rparr>\<rparr>"
  obtain ho po co where ord: "orders k ho po co" using orders_exist[OF live(1)] by blast
  obtain r where r: "on_internal (clock k) ho po co ?msg (pl k) = Some r" using on_internal_no_panic by blast
  have "\<not> sem_closed (upload_allowance (pl k))" using live(2) by (simp add: permits_inv_def)
  from internal_advances[OF b orders_distinct[OF ord] this r]
  have adv: "advanced h b (length (blobs (pl k))) (fst r)" .
  have "\<exists>n'. handled r ?k = Some n'"
    using assms(3) roomy_live[OF live(1)] bulk_internal[OF r]
    by (intro handled_possible) (simp_all add: roomy_def calm_def)
  then obtain n' where n': "handled r ?k = Some n'" by blast
  note eff = handled_effect[OF n']
  have step: "node_step L feed nodes me k n'"
    using ord r n' assms(6)
    by (intro node_step.internal_recv[of k ho po co ?msg "(internal_ch k)\<lparr>queued := []\<rparr>" r]) (simp_all add: chan_recv_def)
  obtain m where m: "(node_step L feed nodes me)\<^sup>*\<^sup>* n' m" "calm m" "same_work n' m" using calm_down by blast
  have "settled m" using m(2,3) eff assms(4,5) by (simp add: settled_def same_work_def)
  moreover have "advanced h b (length (blobs (pl k))) (pl m)"
    using adv m(3) eff(1) advanced_cong[of "pl m" "fst r"] by (simp add: same_work_def)
  ultimately show ?thesis
    using step m(1,3) eff by (intro exI[of _ m]) (simp add: same_work_def converse_rtranclp_into_rtranclp)
qed

section \<open>Rounds\<close>

text \<open>The permits that a peer grants in time, for \<open>k\<close> rounds.\<close>

definition granting :: "lib \<Rightarrow> (handler_message \<Rightarrow> bool) \<Rightarrow> instant \<Rightarrow> nat \<Rightarrow> bool" where
  "granting L feed now k \<longleftrightarrow> (\<exists>p i secs. feed (Response p i (IssuedStoragePermit secs)) \<and> 0 < unat secs \<and>
     nanos now + from_secs (31 * k + unat secs) \<le> instant_max L)"

lemma granting_less:
  assumes "granting L feed now k" and "nanos later + from_secs (31 * j) \<le> nanos now + from_secs (31 * k)"
  shows "granting L feed later j"
proof -
  obtain p i secs where "feed (Response p i (IssuedStoragePermit secs))" "0 < unat secs"
    "nanos now + from_secs (31 * k + unat secs) \<le> instant_max L"
    using assms(1) by (auto simp: granting_def)
  moreover have "nanos later + from_secs (31 * j + unat secs) \<le> nanos now + from_secs (31 * k + unat secs)"
    using assms(2) by (simp add: from_secs_def)
  ultimately show ?thesis unfolding granting_def by (meson order_trans)
qed

lemma one_chunk:
  assumes "live_node L nodes me n" and "lib_ok L" and "chunk_size L < 2 ^ 32" and "settled n"
    and "current_blob (pl n) = Some b" and "h \<in> unfinished (lb_chunks b)" and "granting L feed (clock n) 1"
  shows "\<exists>m. (node_step L feed nodes me)\<^sup>*\<^sup>* n m \<and> settled m \<and> handed m = handed n \<and>
    nanos (clock m) = nanos (clock n) + from_secs 31 \<and> advanced h b (length (blobs (pl n))) (pl m)"
proof -
  from assms(7) obtain p i secs where grant: "feed (Response p i (IssuedStoragePermit secs))" "0 < unat secs"
    "nanos (clock n) + from_secs (31 + unat secs) \<le> instant_max L" by (auto simp: granting_def)
  from granted[where feed = feed, OF assms(1,2,4,5,6) grant(1-3)] obtain n1 t ts b1 where
    n1: "(node_step L feed nodes me)\<^sup>*\<^sup>* n n1" "running n1 = t # ts" "task_hash t = h"
      "length (task_payload t) \<le> chunk_size L" "nanos (clock n1) = nanos (clock n) + from_secs 31"
      "handed n1 = handed n" "idle n1" "length (blobs (pl n1)) = length (blobs (pl n))"
      "current_blob (pl n1) = Some b1" "unfinished (lb_chunks b1) = unfinished (lb_chunks b)" by blast
  have live1: "live_node L nodes me n1" using n1(1) assms(1) by (rule live_run)
  from acknowledged[OF live1 assms(2,3) n1(2,4,7), of feed] obtain k where
    k: "(node_step L feed nodes me)\<^sup>*\<^sup>* n1 k" "calm k" "queued (handler_ch k) = []" "queued (admission_ch k) = []"
      "clock k = clock n1" "handed k = handed n1" "current_blob (pl k) = current_blob (pl n1)"
      "pending_local_blobs (pl k) = pending_local_blobs (pl n1)"
      "queued (internal_ch k) = [UpdateChunkStatus (task_hash t) (ChunkFinalized (task_peer t)) (clock n1)]" by blast
  have live2: "live_node L nodes me k" using k(1) live1 by (rule live_run)
  have "current_blob (pl k) = Some b1" "task_hash t \<in> unfinished (lb_chunks b1)"
    using k(7) n1(3,9,10) assms(6) by simp_all
  from recorded[OF live2 assms(2) k(2,3,4,9) this, of feed] obtain m where
    m: "(node_step L feed nodes me)\<^sup>*\<^sup>* k m" "settled m" "clock m = clock k" "handed m = handed k"
      "advanced (task_hash t) b1 (length (blobs (pl k))) (pl m)" by blast
  have len: "length (blobs (pl k)) = length (blobs (pl n))" using k(7,8) n1(8) by (simp add: blobs_def)
  have run: "(node_step L feed nodes me)\<^sup>*\<^sup>* n m" using n1(1) k(1) m(1) by (meson rtranclp_trans)
  have adv: "advanced h b (length (blobs (pl n))) (pl m)"
    using m(5) len n1(3,10) unfolding advanced_def by simp
  have "nanos (clock m) = nanos (clock n) + from_secs 31" "handed m = handed n"
    using m(3,4) k(5,6) n1(5,6) by simp_all
  with run m(2) adv show ?thesis by blast
qed

lemma live_current:
  assumes "live_node L nodes me n" and "lib_ok L" and "current_blob (pl n) = Some b"
  shows "unfinished (lb_chunks b) \<noteq> {}" "finite (unfinished (lb_chunks b))"
proof -
  have "chunks_ok L (clock n) (lb_chunks b) \<and> unfinished (lb_chunks b) \<noteq> {}"
    using live_nodeD(1)[OF assms(1,2)] assms(3) by (simp add: live_inv_def live_pl_def blobs_def)
  moreover have "unfinished (lb_chunks b) \<subseteq> dom (lb_chunks b)" by (auto simp: unfinished_def)
  ultimately show "unfinished (lb_chunks b) \<noteq> {}" "finite (unfinished (lb_chunks b))"
    unfolding chunks_ok_def using finite_subset by blast+
qed

lemma one_blob:
  assumes "live_node L nodes me n" and "lib_ok L" and "chunk_size L < 2 ^ 32" and "settled n"
    and "current_blob (pl n) = Some b" and "granting L feed (clock n) (card (unfinished (lb_chunks b)))"
  shows "\<exists>m. (node_step L feed nodes me)\<^sup>*\<^sup>* n m \<and> settled m \<and> handed m = handed n \<and>
    nanos (clock m) \<le> nanos (clock n) + from_secs (31 * card (unfinished (lb_chunks b))) \<and>
    Suc (length (blobs (pl m))) = length (blobs (pl n))"
  using assms(1,4,5,6)
proof (induction "card (unfinished (lb_chunks b))" arbitrary: n b)
  case 0
  then show ?case using live_current[OF 0(2) assms(2) 0(4)] by simp
next
  case (Suc k)
  note cur = live_current[OF Suc.prems(1) assms(2) Suc.prems(3)]
  obtain h where h: "h \<in> unfinished (lb_chunks b)" using cur(1) by blast
  have "granting L feed (clock n) 1"
    using Suc.prems(4) by (rule granting_less) (simp add: Suc.hyps(2)[symmetric] from_secs_def)
  from one_chunk[OF Suc.prems(1) assms(2,3) Suc.prems(2,3) h this] obtain m where
    m: "(node_step L feed nodes me)\<^sup>*\<^sup>* n m" "settled m" "handed m = handed n"
      "nanos (clock m) = nanos (clock n) + from_secs 31" "advanced h b (length (blobs (pl n))) (pl m)" by blast
  have live: "live_node L nodes me m" using m(1) Suc.prems(1) by (rule live_run)
  have time: "from_secs (31 + 31 * k) = from_secs 31 + from_secs (31 * k)" by (simp add: from_secs_def)
  from m(5) consider "Suc (length (blobs (pl m))) = length (blobs (pl n))"
    | b' where "length (blobs (pl m)) = length (blobs (pl n))" "current_blob (pl m) = Some b'"
        "unfinished (lb_chunks b') = unfinished (lb_chunks b) - {h}"
    unfolding advanced_def by blast
  then show ?case
  proof cases
    case 1
    then show ?thesis using m time by (intro exI[of _ m]) (simp add: Suc.hyps(2)[symmetric])
  next
    case 2
    have card: "k = card (unfinished (lb_chunks b'))" using 2(3) h cur(2) Suc.hyps(2) by simp
    have "granting L feed (clock m) (card (unfinished (lb_chunks b')))"
      using Suc.prems(4) by (rule granting_less) (simp add: Suc.hyps(2)[symmetric] card[symmetric] m(4) time)
    from Suc.hyps(1)[OF card live m(2) 2(2) this] obtain m' where
      m': "(node_step L feed nodes me)\<^sup>*\<^sup>* m m'" "settled m'" "handed m' = handed m"
        "nanos (clock m') \<le> nanos (clock m) + from_secs (31 * card (unfinished (lb_chunks b')))"
        "Suc (length (blobs (pl m'))) = length (blobs (pl m))" by blast
    have "nanos (clock m') \<le> nanos (clock n) + from_secs (31 + 31 * k)"
      using m'(4) m(4) time card by simp
    moreover have "(node_step L feed nodes me)\<^sup>*\<^sup>* n m'" using m(1) m'(1) by (rule rtranclp_trans)
    ultimately show ?thesis using m' m(3) 2(1) by (intro exI[of _ m']) (simp add: Suc.hyps(2)[symmetric])
  qed
qed

section \<open>Every accepted blob\<close>

text \<open>The chunks of the accepted blobs that are not finished.\<close>

definition missing :: "node \<Rightarrow> nat" where
  "missing n = sum_list (List.map (\<lambda>a. length (ab_chunks a)) (drop (length (finished n)) (handed n)))"

lemma finished_settled:
  "settled n \<Longrightarrow> finished n = take (length (handed n) - length (blobs (pl n))) (handed n)"
  by (simp add: finished_def settled_def)

lemma sum_list_drop_le: "sum_list (List.map f (drop j xs)) \<le> sum_list (List.map f xs)" for f :: "'a \<Rightarrow> nat"
proof -
  have "sum_list (List.map f xs) = sum_list (List.map f (take j xs)) + sum_list (List.map f (drop j xs))"
    by (metis append_take_drop_id map_append sum_list_append)
  then show ?thesis by simp
qed

text \<open>The first blob that is not finished is the current one.\<close>

lemma settled_current:
  assumes "live_node L nodes me n" and "lib_ok L" and "settled n" and "blobs (pl n) \<noteq> []"
  obtains b a as where "current_blob (pl n) = Some b" "handed n = finished n @ a # as"
    "length (blobs (pl n)) = Suc (length as)" "card (unfinished (lb_chunks b)) \<le> length (ab_chunks a)"
proof -
  from live_nodeD(3)[OF assms(1,2)] obtain fin rest where
    at: "around L nodes me fin rest n" "pl_inv L (acked n) rest (pl n)" by (auto simp: blobs_inv_def)
  have fin: "handed n = finished n @ rest"
    using at(1) assms(3) finished_eq[OF at] by (simp add: around_def settled_def)
  have rep: "list_all2 represents rest (blobs (pl n))" using at(2) by (simp add: pl_inv_def)
  obtain b where b: "current_blob (pl n) = Some b"
    using at(2) assms(4) by (cases "current_blob (pl n)") (auto simp: pl_inv_def blobs_def)
  then have "blobs (pl n) = b # pending_local_blobs (pl n)" by (simp add: blobs_def)
  with rep obtain a as where rest: "rest = a # as" "represents a b" "length as = length (pending_local_blobs (pl n))"
    by (auto simp: list_all2_Cons2 dest: list_all2_lengthD)
  have "unfinished (lb_chunks b) \<subseteq> fst ` set (ab_chunks a)"
    using rest(2) by (auto simp: represents_def unfinished_def)
  then have "card (unfinished (lb_chunks b)) \<le> card (fst ` set (ab_chunks a))" by (intro card_mono) simp_all
  also have "\<dots> \<le> length (ab_chunks a)"
    using card_image_le[of "set (ab_chunks a)" fst] card_length[of "ab_chunks a"] by simp
  finally have "card (unfinished (lb_chunks b)) \<le> length (ab_chunks a)" .
  with b fin rest(1) rest(3)[symmetric] show thesis by (intro that) (simp_all add: blobs_def)
qed

lemma all_blobs:
  assumes "live_node L nodes me n" and "lib_ok L" and "chunk_size L < 2 ^ 32" and "settled n"
    and "granting L feed (clock n) (missing n)"
  shows "\<exists>m. (node_step L feed nodes me)\<^sup>*\<^sup>* n m \<and> settled m \<and> handed m = handed n \<and> finished m = handed n"
  using assms(1,4,5)
proof (induction "length (blobs (pl n))" arbitrary: n)
  case 0
  then have "finished n = handed n" using finished_settled by simp
  with 0 show ?case by (intro exI[of _ n]) simp
next
  case (Suc k)
  have "blobs (pl n) \<noteq> []" using Suc.hyps(2) by auto
  from settled_current[OF Suc.prems(1) assms(2) Suc.prems(2) this] obtain b a as where
    b: "current_blob (pl n) = Some b" "handed n = finished n @ a # as" "length (blobs (pl n)) = Suc (length as)"
      "card (unfinished (lb_chunks b)) \<le> length (ab_chunks a)" by blast
  let ?as = "sum_list (List.map (\<lambda>a. length (ab_chunks a)) as)"
  have miss: "missing n = length (ab_chunks a) + ?as" unfolding missing_def by (simp add: b(2))
  have "granting L feed (clock n) (card (unfinished (lb_chunks b)))"
    using Suc.prems(3) by (rule granting_less) (use b(4) miss in \<open>simp add: from_secs_def\<close>)
  from one_blob[OF Suc.prems(1) assms(2,3) Suc.prems(2) b(1) this] obtain m where
    m: "(node_step L feed nodes me)\<^sup>*\<^sup>* n m" "settled m" "handed m = handed n"
      "nanos (clock m) \<le> nanos (clock n) + from_secs (31 * card (unfinished (lb_chunks b)))"
      "Suc (length (blobs (pl m))) = length (blobs (pl n))" by blast
  have "finished m = finished n @ [a]"
    using finished_settled[OF m(2)] m(3,5) b(2,3) by simp
  then have miss': "missing m = ?as" unfolding missing_def m(3) by (simp add: b(2))
  have "granting L feed (clock m) (missing m)"
    using Suc.prems(3) by (rule granting_less) (use m(4) b(4) in \<open>simp add: from_secs_def miss miss'\<close>)
  moreover have "live_node L nodes me m" using m(1) Suc.prems(1) by (rule live_run)
  moreover have "k = length (blobs (pl m))" using m(5) Suc.hyps(2) by simp
  ultimately obtain m' where m': "(node_step L feed nodes me)\<^sup>*\<^sup>* m m'" "settled m'" "handed m' = handed m"
    "finished m' = handed m" using Suc.hyps(1) m(2) by blast
  have "(node_step L feed nodes me)\<^sup>*\<^sup>* n m'" using m(1) m'(1) by (rule rtranclp_trans)
  with m' m(3) show ?case by auto
qed

text \<open>So from every reachable state all accepted blobs can be acknowledged and reported.\<close>

lemma all_finalized_possible:
  assumes "reachable_node L feed nodes me n" and "lib_ok L" and "chunk_size L < 2 ^ 32"
    and "granting L feed (clock n) (missing n)"
  shows "\<exists>m. (node_step L feed nodes me)\<^sup>*\<^sup>* n m \<and> handed m = handed n \<and>
    (\<forall>a\<in>set (handed n). acked_blob (acked m) a \<and> (magic_type_id L (ab_id a) = Some (ab_id a) \<longrightarrow>
       get_status (bridge m) (ab_id a) = Some (OK, Some Finalized)))"
proof -
  have live: "live_node L nodes me n"
    using assms(1) unfolding reachable_node_def by (rule live.inv_reachable)
  from settle[OF live assms(2), of feed] obtain k where
    k: "(node_step L feed nodes me)\<^sup>*\<^sup>* n k" "settled k" "clock k = clock n" "handed k = handed n" by blast
  have "prefix (finished n) (finished k)"
    using service_run_mono[OF service_run[OF k(1) assms(1,2)]] by (simp add: service_of_def)
  then obtain more where "finished k = finished n @ more" by (auto simp: prefix_def)
  then have "drop (length (finished k)) (handed k) = drop (length more) (drop (length (finished n)) (handed n))"
    by (simp add: k(4) add.commute)
  then have "missing k \<le> missing n" unfolding missing_def by (metis sum_list_drop_le)
  then have "granting L feed (clock k) (missing k)"
    using assms(4) by (intro granting_less[OF assms(4)]) (simp add: k(3) from_secs_def)
  from all_blobs[OF live_run[OF k(1) live] assms(2,3) k(2) this] obtain m where
    m: "(node_step L feed nodes me)\<^sup>*\<^sup>* k m" "settled m" "handed m = handed k" "finished m = handed k" by blast
  have run: "(node_step L feed nodes me)\<^sup>*\<^sup>* n m" using k(1) m(1) by (rule rtranclp_trans)
  then have reach: "reachable_node L feed nodes me m"
    using assms(1) reachable_run unfolding reachable_node_def by metis
  from node_reachable[OF reach] assms(2) obtain fin rest where
    at: "around L nodes me fin rest m" "pl_inv L (acked m) rest (pl m)" by (auto simp: node_inv_def blobs_inv_def)
  have "acked_blob (acked m) a" if "a \<in> set (handed n)" for a
    using at(1) finished_eq[OF at] m(4) k(4) that by (simp add: around_def)
  moreover have "get_status (bridge m) (ab_id a) = Some (OK, Some Finalized)"
    if "a \<in> set (handed n)" "magic_type_id L (ab_id a) = Some (ab_id a)" for a
  proof -
    have "told m (ab_id a)"
      using reports_reachable[OF reach assms(2)] m(4) k(4) that unfolding reports_inv_def by auto
    then show ?thesis using m(2) by (simp add: told_def settled_def calm_def)
  qed
  ultimately show ?thesis using run m(3) k(4) by (intro exI[of _ m]) simp
qed

end
