(* ===== verification/NodeProperties.thy ===== *)
theory NodeProperties
  imports SampleRun NodeStuck NodeProgress
begin

text \<open>
  The properties of the running client, for every state it can reach, and their application to
  the states of the sample run.
\<close>

section \<open>Consequences of the invariants\<close>

lemma blobs_reachable:
  assumes "reachable_node L feed nodes me n" and "lib_ok L"
  obtains fin rest where "around L nodes me fin rest n" "pl_inv L (acked n) rest (pl n)"
  using node_reachable[OF assms(1)] assms(2) by (auto simp: node_inv_def blobs_inv_def)

lemma represents_allowance:
  "list_all2 represents as bs \<Longrightarrow> List.map lb_allowance bs = List.map ab_allowance as"
  by (induction rule: list_all2_induct) (simp_all add: represents_def)

lemma finalized_in_table:
  assumes "get_status st bid = Some (OK, Some Finalized)"
  shows "\<exists>l s. status_map st bid = Some l \<and> s \<in> set l \<and> ts_status s = Finalized"
  using assms last_in_set by (fastforce simp: get_status_def last_status_def split: option.splits if_splits)

section \<open>Properties\<close>

text \<open>C1: A blob is reported as finalized only when it is stored. Whenever the bridge answers a status
  request with \<open>Finalized\<close>, in any state the client can reach with any swarm, any peers and any
  interleaving, a blob with that id was accepted, and for each of its chunks some peer acknowledged
  a payload with the chunk's hash; if that peer runs this program, it delivered that payload to its
  owner.\<close>

theorem finalized_is_delivered:
  assumes "reachable_node L feed nodes me n" and "lib_ok L"
    and "get_status (bridge n) bid = Some (OK, Some Finalized)"
  shows "\<exists>a\<in>set (handed n). ab_id a = bid \<and>
    (\<forall>h\<in>fst ` set (ab_chunks a). \<exists>p d. (h, p, d) \<in> acked n \<and> blake3 L d = h \<and>
       (p \<in> nodes \<longrightarrow> (p, \<lparr>push_peer = me, push_hash = h, push_data = d\<rparr>) \<in> set (deliveries n)))"
proof -
  obtain fin rest where inv: "around L nodes me fin rest n" by (rule blobs_reachable[OF assms(1,2)])
  obtain l s where "status_map (bridge n) bid = Some l" "s \<in> set l" "ts_status s = Finalized"
    using finalized_in_table[OF assms(3)] by blast
  then have "bid \<in> ab_id ` set fin" using inv by (fastforce simp: around_def statuses_ok_def)
  then obtain a where a: "a \<in> set fin" "ab_id a = bid" by blast
  have "\<exists>p d. (h, p, d) \<in> acked n \<and> blake3 L d = h \<and>
       (p \<in> nodes \<longrightarrow> (p, \<lparr>push_peer = me, push_hash = h, push_data = d\<rparr>) \<in> set (deliveries n))"
    if "h \<in> fst ` set (ab_chunks a)" for h
  proof -
    have "acked_blob (acked n) a" using inv a(1) by (simp add: around_def)
    with that obtain p d where "(h, p, d) \<in> acked n" unfolding acked_blob_def by blast
    moreover have "evidence L nodes me n" using inv by (simp add: around_def)
    ultimately show ?thesis unfolding evidence_def by blast
  qed
  moreover have "a \<in> set (handed n)" using inv a(1) by (simp add: around_def)
  ultimately show ?thesis using a(2) by blast
qed

theorem finalized_is_delivered_witness:
  "get_status (bridge run9) ''blob_a'' = Some (OK, Some Finalized) \<and>
   (\<exists>a\<in>set (handed run9). ab_id a = ''blob_a'' \<and>
    (\<forall>h\<in>fst ` set (ab_chunks a). \<exists>p d. (h, p, d) \<in> acked run9 \<and> blake3 sample_lib d = h \<and>
       (p \<in> {[8]} \<longrightarrow> (p, \<lparr>push_peer = [9], push_hash = h, push_data = d\<rparr>) \<in> set (deliveries run9))))"
  using finalized_is_delivered[OF run_reachable lib_ok_sample run_final_status] run_final_status by blast

text \<open>C6: The admission budget is conserved. In every reachable state the free permits, those of the
  uploads in progress, of the blobs queued for the coordinator and of the blobs in its pipeline
  add up to \<open>TOTAL_CHUNK_BUDGET\<close>: no error path, disconnect or archiving loses or duplicates one.\<close>

theorem budget_conserved:
  assumes "reachable_node L feed nodes me n" and "lib_ok L"
  shows "available_permits (admission_budget (bridge n)) +
     sum_list (List.map up_allowance (uploads n)) +
     sum_list (List.map ab_allowance (new_blobs (queued (admission_ch n)))) +
     sum_list (List.map lb_allowance (blobs (pl n))) = TOTAL_CHUNK_BUDGET"
proof -
  obtain fin rest where inv: "around L nodes me fin rest n" "pl_inv L (acked n) rest (pl n)"
    by (rule blobs_reachable[OF assms])
  have "List.map lb_allowance (blobs (pl n)) = List.map ab_allowance rest"
    using inv(2) represents_allowance by (auto simp: pl_inv_def)
  with inv(1) show ?thesis by (simp add: around_def budget_inv_def budget_held_def)
qed

theorem budget_conserved_witness:
  "available_permits (admission_budget (bridge run6)) = 1535 \<and>
   available_permits (admission_budget (bridge run6)) + sum_list (List.map up_allowance (uploads run6)) +
     sum_list (List.map ab_allowance (new_blobs (queued (admission_ch run6)))) +
     sum_list (List.map lb_allowance (blobs (pl run6))) = TOTAL_CHUNK_BUDGET"
  using budget_conserved[OF run_mid_reachable lib_ok_sample] by (simp add: run6_def run4_def run1_def run_bridge_def)



text \<open>C11: An id is accepted at most once, whatever uploads, lookups, failures and reports are
  interleaved: the canonical ids of the accepted blobs and of the uploads in progress are all
  different, and each of them has its entry in the status table.\<close>

theorem id_accepted_once:
  assumes "reachable_node L feed nodes me n" and "lib_ok L"
  shows "distinct (List.map (canonical L) (handed n)) \<and>
    distinct (List.map (\<lambda>u. adm_id (up_admission u)) (uploads n)) \<and>
    canonical L ` set (handed n) \<inter> (\<lambda>u. adm_id (up_admission u)) ` set (uploads n) = {} \<and>
    canonical L ` set (handed n) \<subseteq> dom (status_map (bridge n))"
  using node_reachable[OF assms(1)] assms(2) unfolding node_inv_def ids_inv_def claimed_def by auto

theorem id_accepted_once_witness:
  "handed run9 = [run_blob] \<and> canonical sample_lib ` set (handed run9) \<subseteq> dom (status_map (bridge run9))"
  using id_accepted_once[OF run_reachable lib_ok_sample] by (simp add: run9_def run8_def run4_def)

text \<open>C23: At most 20 uploads run at once and none of their permits is ever lost: in every reachable
  state the free upload permits and the running tasks add up to 20.\<close>

theorem upload_permits_conserved:
  assumes "reachable_node L feed nodes me n"
  shows "available_permits (upload_allowance (pl n)) + length (running n) = 20"
  using node_reachable[OF assms] by (simp add: node_inv_def permits_inv_def)

theorem upload_permits_conserved_witness:
  "length (running run6) = 1 \<and> available_permits (upload_allowance (pl run6)) + length (running run6) = 20"
  using upload_permits_conserved[OF run_mid_reachable] by (simp add: run6_def)

text \<open>C5: The client never uploads anything. The swarm task passes no response on, since the future
  of its \<open>send\<close> is never polled; so with the messages that task delivers no storage permit is ever
  recorded, no upload task starts, no chunk is acknowledged and no blob becomes \<open>Finalized\<close>.\<close>

theorem client_never_uploads:
  assumes "reachable_node L (swarm_feeds gossip_ok) nodes me n"
  shows "storage_permits (pl n) = Map.empty \<and> running n = [] \<and> acked n = {} \<and>
    get_status (bridge n) bid \<noteq> Some (OK, Some Finalized)"
proof -
  have inv: "stuck_inv n" using assms by (rule stuck_reachable)
  then have "get_status (bridge n) bid \<noteq> Some (OK, Some Finalized)"
    using finalized_in_table[of "bridge n" bid] by (fastforce simp: stuck_inv_def statuses_ok_def)
  with inv show ?thesis by (simp add: stuck_inv_def)
qed

theorem client_never_uploads_witness:
  "current_blob (pl run4) \<noteq> None \<and> get_status (bridge run4) ''blob_a'' \<noteq> Some (OK, Some Finalized) \<and>
   storage_permits (pl run4) = Map.empty"
  using client_never_uploads[OF run_early_reachable, of "''blob_a''"] by (simp add: run4_def)

text \<open>C32: The bridge never panics on an empty history: in every reachable state each status request
  and each lookup of a blob is answered.\<close>

theorem bridge_always_answers:
  assumes "reachable_node L feed nodes me n"
  shows "get_status (bridge n) bid \<noteq> None \<and> fst (get_blob_entry L now bid (bridge n)) \<noteq> None"
proof
  show "get_status (bridge n) bid \<noteq> None" by (rule status_wf_get_status[OF table_reachable[OF assms]])
  obtain r st where run: "get_blob_entry L now bid (bridge n) = (r, st)" by fastforce
  from status_wf_get_blob_entry[OF table_reachable[OF assms] run] run
  show "fst (get_blob_entry L now bid (bridge n)) \<noteq> None" by simp
qed

theorem bridge_always_answers_witness:
  "get_status (bridge run9) ''blob_b'' \<noteq> None \<and> fst (get_blob_entry sample_lib (Instant 3) ''blob_a'' (bridge run9)) \<noteq> None"
  using bridge_always_answers[OF run_reachable, of "''blob_b''"]
    bridge_always_answers[OF run_reachable]
  by blast







end
