(* ===== verification/P2p.thy ===== *)
theory P2p
  imports Swarm
begin

text \<open>
  The set-up of a libp2p swarm, \<open>crates/peyk/src/p2p.rs\<close>: the behaviours a node is built from,
  with the constants the code gives them, and the swarm as the state that the start-up code and the
  loops change. What libp2p decides is a field of \<open>net\<close>.
\<close>

section \<open>Results\<close>

text \<open>\<open>?\<close> on a \<open>Result\<close>.\<close>

definition try_then :: "'e + 'a \<Rightarrow> ('a \<Rightarrow> 'e + 'b) \<Rightarrow> 'e + 'b" where
  "try_then r f = (case r of Inl e \<Rightarrow> Inl e | Inr x \<Rightarrow> f x)"

definition ok_or :: "'e \<Rightarrow> 'a option \<Rightarrow> 'e + 'a" where
  "ok_or e r = (case r of None \<Rightarrow> Inl e | Some x \<Rightarrow> Inr x)"

lemma try_then_Inr: "try_then r f = Inr y \<longleftrightarrow> (\<exists>x. r = Inr x \<and> f x = Inr y)"
  by (auto simp: try_then_def split: sum.splits)

lemma try_then_simps [simp]: "try_then (Inl e) f = Inl e" "try_then (Inr x) f = f x"
  by (simp_all add: try_then_def)

lemma ok_or_simps [simp]:
  "ok_or e None = Inl e" "ok_or e (Some x) = Inr x" "ok_or e r = Inr x \<longleftrightarrow> r = Some x"
  by (simp_all add: ok_or_def split: option.splits)

section \<open>Behaviours\<close>

type_synonym keypair = bytes
type_synonym public_key = bytes

datatype validation_mode = Strict
datatype protocol_support = Full

record gossipsub_config =
  heartbeat_interval :: duration
  validation :: validation_mode
  signed_by :: keypair

record req_resp_config =
  rr_protocol :: string
  rr_support :: protocol_support

record identify_config =
  id_protocol :: string
  id_key :: public_key

record kad_config =
  kad_protocol :: string
  kad_query_timeout :: duration
  kad_local_peer :: peer_id

record global_behaviour =
  gb_identify :: identify_config
  gb_kademlia :: kad_config
  gb_gossipsub :: gossipsub_config
  gb_req_resp :: req_resp_config

record net =
  public :: "keypair \<Rightarrow> public_key"
  peer_id_of :: "public_key \<Rightarrow> peer_id"
  encode_key :: "keypair \<Rightarrow> bytes option"
  decode_key :: "bytes \<Rightarrow> keypair option"
  parse_peer_id :: "string \<Rightarrow> peer_id option"
  parse_multiaddr :: "string \<Rightarrow> multiaddr option"
  gossipsub_accepts :: "gossipsub_config \<Rightarrow> bool"
  tcp_ok :: bool
  dns_ok :: bool
  listens :: "multiaddr \<Rightarrow> bool"
  file_writable :: bool

datatype start_error =
    KeyUnreadable
  | KeyUndecodable
  | GossipsubRefused
  | TransportFailed
  | BadAddress string
  | BadPeerId string
  | ListenFailed

definition prepare_gossipsub_behaviour :: "net \<Rightarrow> keypair \<Rightarrow> start_error + gossipsub_config" where
  "prepare_gossipsub_behaviour net keypair =
     (let cfg = \<lparr>heartbeat_interval = from_secs 10, validation = Strict, signed_by = keypair\<rparr>
      in if gossipsub_accepts net cfg then Inr cfg else Inl GossipsubRefused)"

definition prepare_request_response_behaviour :: req_resp_config where
  "prepare_request_response_behaviour = \<lparr>rr_protocol = ''/gozara/req_resp/1.0'', rr_support = Full\<rparr>"

definition prepare_identify_behaviour :: "public_key \<Rightarrow> identify_config" where
  "prepare_identify_behaviour public_key = \<lparr>id_protocol = ''/gozara/identify/1.0'', id_key = public_key\<rparr>"

definition prepare_kademlia_behaviour :: "net \<Rightarrow> public_key \<Rightarrow> kad_config" where
  "prepare_kademlia_behaviour net public_key = \<lparr>kad_protocol = ''/gozara/kad/1.0'',
     kad_query_timeout = from_secs (5 * 60), kad_local_peer = peer_id_of net public_key\<rparr>"

section \<open>Swarms\<close>

record 'b swarm =
  sw_peer :: peer_id
  sw_behaviour :: 'b
  sw_idle_timeout :: duration
  sw_listening :: "multiaddr list"
  sw_external :: "multiaddr list"
  sw_topics :: "string list"
  sw_routes :: "(peer_id \<times> multiaddr) list"
  sw_queries :: "peer_id list"
  sw_bootstraps :: nat
  sw_requests :: "(peer_id \<times> request) list"

definition swarm_new :: "net \<Rightarrow> keypair \<Rightarrow> 'b \<Rightarrow> 'b swarm" where
  "swarm_new net keypair b = \<lparr>sw_peer = peer_id_of net (public net keypair), sw_behaviour = b,
     sw_idle_timeout = from_secs 60, sw_listening = [], sw_external = [], sw_topics = [], sw_routes = [],
     sw_queries = [], sw_bootstraps = 0, sw_requests = []\<rparr>"

definition setup_global_swarm :: "net \<Rightarrow> keypair \<Rightarrow> start_error + global_behaviour swarm" where
  "setup_global_swarm net keypair =
     (if \<not> tcp_ok net \<or> \<not> dns_ok net then Inl TransportFailed
      else
        let public_key = public net keypair in
        try_then (prepare_gossipsub_behaviour net keypair) (\<lambda>gossipsub.
          Inr (swarm_new net keypair
            \<lparr>gb_identify = prepare_identify_behaviour public_key,
              gb_kademlia = prepare_kademlia_behaviour net public_key,
              gb_gossipsub = gossipsub,
              gb_req_resp = prepare_request_response_behaviour\<rparr>)))"

section \<open>Operations of a swarm\<close>

definition listen_on :: "net \<Rightarrow> string \<Rightarrow> 'b swarm \<Rightarrow> start_error + 'b swarm" where
  "listen_on net addr_text sw =
     try_then (ok_or (BadAddress addr_text) (parse_multiaddr net addr_text)) (\<lambda>addr.
       if listens net addr then Inr (sw\<lparr>sw_listening := sw_listening sw @ [addr]\<rparr>) else Inl ListenFailed)"

definition add_external_address :: "net \<Rightarrow> string \<Rightarrow> 'b swarm \<Rightarrow> start_error + 'b swarm" where
  "add_external_address net addr_text sw =
     try_then (ok_or (BadAddress addr_text) (parse_multiaddr net addr_text)) (\<lambda>addr.
       Inr (sw\<lparr>sw_external := sw_external sw @ [addr]\<rparr>))"

text \<open>The effect of the actions that the loops record.\<close>

definition perform :: "swarm_action \<Rightarrow> 'b swarm \<Rightarrow> 'b swarm" where
  "perform act sw =
     (case act of
        GetClosestPeers peer \<Rightarrow> sw\<lparr>sw_queries := sw_queries sw @ [peer]\<rparr>
      | SendRequest peer req \<Rightarrow> sw\<lparr>sw_requests := sw_requests sw @ [(peer, req)]\<rparr>
      | AddAddress peer addr \<Rightarrow> sw\<lparr>sw_routes := sw_routes sw @ [(peer, addr)]\<rparr>)"

end
