(* ===== verification/Client.thy ===== *)
theory Client
  imports P2p
begin

text \<open>
  The start of a client: the configuration from the environment (\<open>bin/client/src/main.rs\<close>) and
  \<open>go_public\<close> (\<open>bin/client/src/lib.rs\<close>), which loads or creates the key, sets up the swarm and
  joins the network. The file system is a map from paths to contents.
\<close>

section \<open>Configuration\<close>

record config =
  grpc_addr :: string
  key_file :: "string option"
  bootnode_peer_id :: string
  bootnode_ip_addr :: string
  bootnode_port :: string
  external_ip_addr :: string
  external_port :: string
  zone :: string

text \<open>\<open>env\<close> is \<open>env::var(..).ok()\<close>; the error is the text that \<open>with_context\<close> adds.\<close>

definition missing_var :: "string \<Rightarrow> string" where
  "missing_var name = ''`'' @ name @ ''` is missing''"

definition required :: "(string \<Rightarrow> string option) \<Rightarrow> string \<Rightarrow> string + string" where
  "required env name = ok_or (missing_var name) (env name)"

definition load_config :: "(string \<Rightarrow> string option) \<Rightarrow> string + config" where
  "load_config env =
     try_then (required env ''NODE_GRPC_ADDR'') (\<lambda>grpc.
     try_then (required env ''BOOTNODE_PEER_ID'') (\<lambda>boot_peer.
     try_then (required env ''BOOTNODE_IP_ADDR'') (\<lambda>boot_ip.
     try_then (required env ''BOOTNODE_PORT'') (\<lambda>boot_port.
     try_then (required env ''EXTERNAL_IP_ADDR'') (\<lambda>ext_ip.
     try_then (required env ''EXTERNAL_PORT'') (\<lambda>ext_port.
       Inr \<lparr>grpc_addr = grpc, key_file = env ''KEY_FILE'', bootnode_peer_id = boot_peer,
         bootnode_ip_addr = boot_ip, bootnode_port = boot_port, external_ip_addr = ext_ip,
         external_port = ext_port,
         zone = (case env ''ZONE'' of None \<Rightarrow> ''ME'' | Some z \<Rightarrow> z)\<rparr>))))))"

section \<open>The key of the node\<close>

type_synonym files = "string \<rightharpoonup> bytes"

definition KEY_PATH :: string where
  "KEY_PATH = ''./key.secret''"

text \<open>
  A given key file is read and decoded; otherwise a new key (an argument) is encoded and the
  attempt to save it ignored when it fails. \<open>None\<close> is the panic of \<open>to_protobuf_encoding().unwrap()\<close>.
\<close>

definition generate_key :: "net \<Rightarrow> keypair \<Rightarrow> files \<Rightarrow> (keypair \<times> files) option" where
  "generate_key net new_key fs =
     (case encode_key net new_key of
        None \<Rightarrow> None
      | Some bytes \<Rightarrow> Some (new_key, if file_writable net then fs(KEY_PATH \<mapsto> bytes) else fs))"

definition local_key :: "net \<Rightarrow> keypair \<Rightarrow> string option \<Rightarrow> files \<Rightarrow> ((start_error + keypair) \<times> files) option" where
  "local_key net new_key given fs =
     (case given of
        Some path \<Rightarrow>
          Some (try_then (ok_or KeyUnreadable (fs path)) (\<lambda>bytes.
            ok_or KeyUndecodable (decode_key net bytes)), fs)
      | None \<Rightarrow> map_option (map_prod Inr (\<lambda>fs'. fs')) (generate_key net new_key fs))"

section \<open>Joining the network\<close>

definition gossip_topic :: "config \<Rightarrow> string" where
  "gossip_topic cfg = ''gozara-'' @ zone cfg @ ''-zone''"

definition bootnode_addr :: "config \<Rightarrow> string" where
  "bootnode_addr cfg = ''/ip4/'' @ bootnode_ip_addr cfg @ ''/tcp/20201''"

definition external_tcp :: "config \<Rightarrow> string" where
  "external_tcp cfg = ''/ip4/'' @ external_ip_addr cfg @ ''/tcp/'' @ external_port cfg"

definition external_quic :: "config \<Rightarrow> string" where
  "external_quic cfg = ''/ip4/'' @ external_ip_addr cfg @ ''/udp/'' @ external_port cfg @ ''/quic-v1''"

definition join_network :: "net \<Rightarrow> config \<Rightarrow> global_behaviour swarm \<Rightarrow> start_error + global_behaviour swarm" where
  "join_network net cfg sw0 =
     try_then (listen_on net ''/ip4/0.0.0.0/udp/20201/quic-v1'' sw0) (\<lambda>sw1.
     try_then (listen_on net ''/ip4/0.0.0.0/tcp/20201'' sw1) (\<lambda>sw2.
       let sw3 = sw2\<lparr>sw_topics := sw_topics sw2 @ [gossip_topic cfg]\<rparr> in
     try_then (ok_or (BadPeerId (bootnode_peer_id cfg)) (parse_peer_id net (bootnode_peer_id cfg))) (\<lambda>peer.
     try_then (ok_or (BadAddress (bootnode_addr cfg)) (parse_multiaddr net (bootnode_addr cfg))) (\<lambda>addr.
       let sw4 = perform (AddAddress peer addr) sw3;
           sw5 = sw4\<lparr>sw_bootstraps := sw_bootstraps sw4 + 1\<rparr> in
     try_then (add_external_address net (external_tcp cfg) sw5) (\<lambda>sw6.
       add_external_address net (external_quic cfg) sw6)))))"

definition go_public :: "net \<Rightarrow> keypair \<Rightarrow> config \<Rightarrow> files
    \<Rightarrow> ((start_error + global_behaviour swarm) \<times> files) option" where
  "go_public net new_key cfg fs =
     (case local_key net new_key (key_file cfg) fs of
        None \<Rightarrow> None
      | Some (r, fs') \<Rightarrow>
          Some (try_then r (\<lambda>key.
            try_then (setup_global_swarm net key) (\<lambda>sw. join_network net cfg sw)), fs'))"

section \<open>Lemmas\<close>

lemma required_Inr [simp]: "required env name = Inr v \<longleftrightarrow> env name = Some v"
  by (simp add: required_def)

lemma load_config_Inr:
  "load_config env = Inr cfg \<longleftrightarrow>
     env ''NODE_GRPC_ADDR'' = Some (grpc_addr cfg) \<and> env ''BOOTNODE_PEER_ID'' = Some (bootnode_peer_id cfg) \<and>
     env ''BOOTNODE_IP_ADDR'' = Some (bootnode_ip_addr cfg) \<and> env ''BOOTNODE_PORT'' = Some (bootnode_port cfg) \<and>
     env ''EXTERNAL_IP_ADDR'' = Some (external_ip_addr cfg) \<and> env ''EXTERNAL_PORT'' = Some (external_port cfg) \<and>
     key_file cfg = env ''KEY_FILE'' \<and> zone cfg = (case env ''ZONE'' of None \<Rightarrow> ''ME'' | Some z \<Rightarrow> z)"
  by (auto simp: load_config_def try_then_Inr)

lemma listen_on_Inr:
  "listen_on net t sw = Inr sw' \<longleftrightarrow>
     (\<exists>a. parse_multiaddr net t = Some a \<and> listens net a \<and> sw' = sw\<lparr>sw_listening := sw_listening sw @ [a]\<rparr>)"
  by (auto simp: listen_on_def try_then_Inr)

lemma add_external_address_Inr:
  "add_external_address net t sw = Inr sw' \<longleftrightarrow>
     (\<exists>a. parse_multiaddr net t = Some a \<and> sw' = sw\<lparr>sw_external := sw_external sw @ [a]\<rparr>)"
  by (auto simp: add_external_address_def try_then_Inr)

lemma setup_global_swarm_Inr:
  "setup_global_swarm net key = Inr sw \<Longrightarrow>
     sw_peer sw = peer_id_of net (public net key) \<and> sw_listening sw = [] \<and> sw_external sw = [] \<and>
     sw_topics sw = [] \<and> sw_routes sw = [] \<and> sw_bootstraps sw = 0 \<and> sw_requests sw = [] \<and>
     signed_by (gb_gossipsub (sw_behaviour sw)) = key \<and> sw_idle_timeout sw = from_secs 60 \<and>
     gb_identify (sw_behaviour sw) = prepare_identify_behaviour (public net key) \<and>
     gb_kademlia (sw_behaviour sw) = prepare_kademlia_behaviour net (public net key)"
  by (auto simp: setup_global_swarm_def prepare_gossipsub_behaviour_def swarm_new_def try_then_Inr Let_def
      split: if_splits)

lemma go_public_Inr:
  assumes "go_public net new_key cfg fs = Some (Inr sw, fs')"
  obtains key sw0 where "local_key net new_key (key_file cfg) fs = Some (Inr key, fs')"
    "setup_global_swarm net key = Inr sw0" "join_network net cfg sw0 = Inr sw"
  using assms by (auto simp: go_public_def try_then_Inr split: option.splits)

text \<open>Joining keeps what the set-up fixed.\<close>

lemma join_network_Inr:
  assumes "join_network net cfg sw0 = Inr sw"
  obtains l1 l2 peer addr e1 e2 where
    "parse_multiaddr net ''/ip4/0.0.0.0/udp/20201/quic-v1'' = Some l1" "listens net l1"
    "parse_multiaddr net ''/ip4/0.0.0.0/tcp/20201'' = Some l2" "listens net l2"
    "parse_peer_id net (bootnode_peer_id cfg) = Some peer" "parse_multiaddr net (bootnode_addr cfg) = Some addr"
    "parse_multiaddr net (external_tcp cfg) = Some e1" "parse_multiaddr net (external_quic cfg) = Some e2"
    "sw = sw0\<lparr>sw_listening := sw_listening sw0 @ [l1, l2], sw_topics := sw_topics sw0 @ [gossip_topic cfg],
       sw_routes := sw_routes sw0 @ [(peer, addr)], sw_bootstraps := sw_bootstraps sw0 + 1,
       sw_external := sw_external sw0 @ [e1, e2]\<rparr>"
  using assms
  by (auto simp: join_network_def try_then_Inr listen_on_Inr add_external_address_Inr perform_def Let_def)

section \<open>A sample network for the witnesses\<close>

text \<open>Keys are their own public keys and ids, every text is an address or an id.\<close>

definition sample_net :: net where
  "sample_net = \<lparr>public = (\<lambda>k. k), peer_id_of = (\<lambda>k. k), encode_key = Some, decode_key = Some,
     parse_peer_id = (\<lambda>s. Some (List.map of_char s)), parse_multiaddr = (\<lambda>s. Some [OtherPart s]),
     gossipsub_accepts = (\<lambda>_. True), tcp_ok = True, dns_ok = True, listens = (\<lambda>_. True), file_writable = True\<rparr>"

lemma sample_net_simps [simp]:
  "public sample_net k = k" "peer_id_of sample_net k = k" "encode_key sample_net k = Some k"
  "decode_key sample_net k = Some k" "parse_peer_id sample_net s = Some (List.map of_char s)"
  "parse_multiaddr sample_net s = Some [OtherPart s]" "gossipsub_accepts sample_net g"
  "tcp_ok sample_net" "dns_ok sample_net" "listens sample_net a" "file_writable sample_net"
  by (simp_all add: sample_net_def)

definition sample_config :: "string option \<Rightarrow> config" where
  "sample_config path = \<lparr>grpc_addr = ''g'', key_file = path, bootnode_peer_id = ''b'', bootnode_ip_addr = ''10.0.0.1'',
     bootnode_port = ''1'', external_ip_addr = ''8.8.8.8'', external_port = ''20201'', zone = ''ME''\<rparr>"

lemma sample_start:
  "\<exists>sw. go_public sample_net k (sample_config None) Map.empty = Some (Inr sw, [KEY_PATH \<mapsto> k]) \<and> sw_peer sw = k"
  "\<exists>sw. go_public sample_net k' (sample_config (Some KEY_PATH)) [KEY_PATH \<mapsto> k] = Some (Inr sw, [KEY_PATH \<mapsto> k])"
  by (simp_all add: go_public_def local_key_def generate_key_def setup_global_swarm_def
      prepare_gossipsub_behaviour_def join_network_def listen_on_def add_external_address_def
      perform_def swarm_new_def sample_config_def Let_def)

section \<open>Properties\<close>

text \<open>The variables without which a client does not start, in the order in which they are read.\<close>

definition required_vars :: "string list" where
  "required_vars = [''NODE_GRPC_ADDR'', ''BOOTNODE_PEER_ID'', ''BOOTNODE_IP_ADDR'', ''BOOTNODE_PORT'',
     ''EXTERNAL_IP_ADDR'', ''EXTERNAL_PORT'']"

lemma load_config_missing:
  "find (\<lambda>v. env v = None) required_vars = Some v \<Longrightarrow> load_config env = Inl (missing_var v)"
  by (simp add: required_vars_def load_config_def required_def ok_or_def split: option.splits if_splits)

text \<open>C35: A client starts with a configuration exactly if every required variable is set; otherwise the
  error names the first one that is missing. The zone is \<open>ME\<close> unless given, the key file optional.\<close>

theorem config_needs_all_variables:
  "case load_config env of
     Inr cfg \<Rightarrow> (\<forall>v\<in>set required_vars. env v \<noteq> None) \<and> key_file cfg = env ''KEY_FILE'' \<and>
       zone cfg = (case env ''ZONE'' of None \<Rightarrow> ''ME'' | Some z \<Rightarrow> z)
   | Inl e \<Rightarrow> \<exists>before v after. required_vars = before @ v # after \<and> (\<forall>u\<in>set before. env u \<noteq> None) \<and>
       env v = None \<and> e = missing_var v"
proof (cases "find (\<lambda>v. env v = None) required_vars")
  case None
  then have all: "\<forall>v\<in>set required_vars. env v \<noteq> None" by (auto simp: find_None_iff)
  then obtain a b c d e f where "env ''NODE_GRPC_ADDR'' = Some a" "env ''BOOTNODE_PEER_ID'' = Some b"
    "env ''BOOTNODE_IP_ADDR'' = Some c" "env ''BOOTNODE_PORT'' = Some d"
    "env ''EXTERNAL_IP_ADDR'' = Some e" "env ''EXTERNAL_PORT'' = Some f"
    by (auto simp: required_vars_def)
  then show ?thesis using all by (simp add: load_config_def required_def)
next
  case (Some v)
  then obtain k where k: "k < length required_vars" "v = required_vars ! k" "env v = None"
    "\<forall>j<k. env (required_vars ! j) \<noteq> None"
    by (auto simp: find_Some_iff)
  have load: "load_config env = Inl (missing_var v)"
    using Some by (rule load_config_missing)
  have "required_vars = take k required_vars @ v # drop (Suc k) required_vars"
    using k(1,2) by (simp add: id_take_nth_drop)
  moreover have "\<forall>u\<in>set (take k required_vars). env u \<noteq> None"
    using k(1,4) by (auto simp: in_set_conv_nth)
  ultimately show ?thesis using load k(3) by auto
qed

theorem config_needs_all_variables_witness:
  "\<exists>before v after. required_vars = before @ v # after \<and>
     load_config [''NODE_GRPC_ADDR'' \<mapsto> ''g''] = Inl (missing_var v)"
proof -
  have "load_config [''NODE_GRPC_ADDR'' \<mapsto> ''g''] = Inl (missing_var ''BOOTNODE_PEER_ID'')"
    by (simp add: load_config_def required_def)
  then show ?thesis using config_needs_all_variables[of "[''NODE_GRPC_ADDR'' \<mapsto> ''g'']"] by auto
qed

text \<open>C19: What a started client is. When \<open>go_public\<close> succeeds, the node has the id of the key that was
  given or generated and signs its gossip with it, listens on UDP and TCP port 20201, announces its
  external address with the configured port for TCP and QUIC, has subscribed to the topic of its
  zone and knows one route, to the boot node at TCP port 20201, through which it bootstraps once.\<close>

theorem go_public_joins:
  assumes "go_public net new_key cfg fs = Some (Inr sw, fs')"
  shows "\<exists>key l1 l2 peer addr e1 e2.
    (case key_file cfg of
       None \<Rightarrow> key = new_key
     | Some path \<Rightarrow> \<exists>bytes. fs path = Some bytes \<and> decode_key net bytes = Some key) \<and>
    sw_peer sw = peer_id_of net (public net key) \<and> signed_by (gb_gossipsub (sw_behaviour sw)) = key \<and>
    parse_multiaddr net ''/ip4/0.0.0.0/udp/20201/quic-v1'' = Some l1 \<and>
    parse_multiaddr net ''/ip4/0.0.0.0/tcp/20201'' = Some l2 \<and> sw_listening sw = [l1, l2] \<and>
    parse_multiaddr net (''/ip4/'' @ external_ip_addr cfg @ ''/tcp/'' @ external_port cfg) = Some e1 \<and>
    parse_multiaddr net (''/ip4/'' @ external_ip_addr cfg @ ''/udp/'' @ external_port cfg @ ''/quic-v1'') = Some e2 \<and>
    sw_external sw = [e1, e2] \<and> sw_topics sw = [''gozara-'' @ zone cfg @ ''-zone''] \<and>
    parse_peer_id net (bootnode_peer_id cfg) = Some peer \<and>
    parse_multiaddr net (''/ip4/'' @ bootnode_ip_addr cfg @ ''/tcp/20201'') = Some addr \<and>
    sw_routes sw = [(peer, addr)] \<and> sw_bootstraps sw = 1"
  using assms
proof (cases rule: go_public_Inr)
  case (1 key sw0)
  have key: "case key_file cfg of
       None \<Rightarrow> key = new_key
     | Some path \<Rightarrow> \<exists>bytes. fs path = Some bytes \<and> decode_key net bytes = Some key"
    using 1(1) by (auto simp: local_key_def generate_key_def try_then_Inr split: option.splits)
  from 1(3) show ?thesis
  proof (cases rule: join_network_Inr)
    case (1 l1 l2 peer addr e1 e2)
    have "sw_peer sw = peer_id_of net (public net key)" "signed_by (gb_gossipsub (sw_behaviour sw)) = key"
      "sw_listening sw = [l1, l2]" "sw_external sw = [e1, e2]" "sw_topics sw = [gossip_topic cfg]"
      "sw_routes sw = [(peer, addr)]" "sw_bootstraps sw = 1"
      using setup_global_swarm_Inr[OF \<open>setup_global_swarm net key = Inr sw0\<close>] unfolding 1(9) by simp_all
    with key 1(1,3,5-8) show ?thesis
      unfolding bootnode_addr_def external_tcp_def external_quic_def gossip_topic_def by blast
  qed
qed

theorem go_public_joins_witness:
  "\<exists>sw fs. go_public sample_net [7] (sample_config None) Map.empty = Some (Inr sw, fs) \<and>
     sw_topics sw = [''gozara-ME-zone''] \<and> sw_bootstraps sw = 1"
proof -
  obtain sw fs where run: "go_public sample_net [7] (sample_config None) Map.empty = Some (Inr sw, fs)"
    using sample_start(1)[of "[7]"] by blast
  have "sw_topics sw = [''gozara-'' @ zone (sample_config None) @ ''-zone'']" "sw_bootstraps sw = 1"
    using go_public_joins[OF run] by blast+
  moreover have "zone (sample_config None) = ''ME''" by (simp add: sample_config_def)
  ultimately show ?thesis using run by simp
qed

text \<open>C36: Two required variables have no effect. The start is the same for every \<open>BOOTNODE_PORT\<close> and
  every \<open>NODE_GRPC_ADDR\<close>: the boot node is always dialled at port 20201.\<close>

theorem bootnode_port_ignored:
  "go_public net new_key (cfg\<lparr>bootnode_port := p, grpc_addr := g\<rparr>) fs = go_public net new_key cfg fs"
proof -
  have "join_network net (cfg\<lparr>bootnode_port := p, grpc_addr := g\<rparr>) = join_network net cfg"
    unfolding join_network_def bootnode_addr_def external_tcp_def external_quic_def gossip_topic_def by simp
  note eq = this
  have "key_file (cfg\<lparr>bootnode_port := p, grpc_addr := g\<rparr>) = key_file cfg" by simp
  then show ?thesis unfolding go_public_def eq by (rule arg_cong)
qed

text \<open>C17: The identity survives a restart. After a start without a key file that saved the new key, even
  one that failed later, a start with \<open>./key.secret\<close> as the key file has the same peer id, whatever
  else is configured.\<close>

theorem identity_survives_restart:
  assumes "go_public net new_key cfg fs = Some (r, fs')" and "key_file cfg = None"
    and "file_writable net" and "\<And>k b. encode_key net k = Some b \<Longrightarrow> decode_key net b = Some k"
    and "go_public net other_key cfg' fs' = Some (Inr sw', fs'')" and "key_file cfg' = Some KEY_PATH"
  shows "sw_peer sw' = peer_id_of net (public net new_key) \<and> (\<forall>sw. r = Inr sw \<longrightarrow> sw_peer sw' = sw_peer sw)"
proof -
  have peer: "sw_peer s = peer_id_of net (public net k)"
    if "setup_global_swarm net k = Inr s0" "join_network net c s0 = Inr s" for k s0 c s
    using setup_global_swarm_Inr[OF that(1)] that(2) by (auto elim: join_network_Inr)
  from assms(1) obtain b where saved: "encode_key net new_key = Some b" "fs' KEY_PATH = Some b"
    using assms(2,3) by (auto simp: go_public_def local_key_def generate_key_def split: option.splits)
  from assms(5) obtain key sw1 where second: "local_key net other_key (Some KEY_PATH) fs' = Some (Inr key, fs'')"
    "setup_global_swarm net key = Inr sw1" "join_network net cfg' sw1 = Inr sw'"
    unfolding assms(6)[symmetric] by (elim go_public_Inr)
  then have "key = new_key" using saved assms(4) by (auto simp: local_key_def)
  then have new: "sw_peer sw' = peer_id_of net (public net new_key)" using peer[OF second(2,3)] by simp
  have "sw_peer sw = peer_id_of net (public net new_key)" if "r = Inr sw" for sw
    using assms(1) unfolding that
  proof (cases rule: go_public_Inr)
    case (1 key sw0)
    then have "key = new_key" using assms(2) by (auto simp: local_key_def generate_key_def split: option.splits)
    then show ?thesis using peer[OF 1(2,3)] by simp
  qed
  with new show ?thesis by simp
qed

theorem identity_survives_restart_witness:
  "\<exists>sw fs sw' fs'. go_public sample_net [7] (sample_config None) Map.empty = Some (Inr sw, fs) \<and>
     go_public sample_net [5] (sample_config (Some KEY_PATH)) fs = Some (Inr sw', fs') \<and>
     sw_peer sw' = sw_peer sw"
proof -
  obtain sw sw' where runs:
    "go_public sample_net [7] (sample_config None) Map.empty = Some (Inr sw, [KEY_PATH \<mapsto> [7]])"
    "go_public sample_net [5] (sample_config (Some KEY_PATH)) [KEY_PATH \<mapsto> [7]] = Some (Inr sw', [KEY_PATH \<mapsto> [7]])"
    using sample_start(1)[of "[7]"] sample_start(2)[of "[5]" "[7]"] by blast
  from identity_survives_restart[OF runs(1) _ _ _ runs(2)] have same: "sw_peer sw' = sw_peer sw"
    by (auto simp: sample_config_def)
  with runs show ?thesis by blast
qed

end
