(* ===== verification/Bootnode.thy ===== *)
theory Bootnode
  imports Client
begin

text \<open>
  The boot node, \<open>bin/bootnode/src/lib.rs\<close> and \<open>main.rs\<close>: a node that only helps others to find
  peers. Its start shares the key handling of the client, except that an unreadable key file is a
  panic, and its loop never ends.
\<close>

section \<open>Start\<close>

record boot_behaviour =
  bb_identify :: identify_config
  bb_kademlia :: kad_config

datatype kad_mode = Server

definition setup_swarm_for_bootnode :: "net \<Rightarrow> keypair \<Rightarrow> start_error + boot_behaviour swarm" where
  "setup_swarm_for_bootnode net keypair =
     (if \<not> tcp_ok net \<or> \<not> dns_ok net then Inl TransportFailed
      else
        let public_key = public net keypair in
        Inr (swarm_new net keypair
          \<lparr>bb_identify = prepare_identify_behaviour public_key,
            bb_kademlia = prepare_kademlia_behaviour net public_key\<rparr>))"

lemma setup_swarm_for_bootnode_Inr:
  "setup_swarm_for_bootnode net key = Inr sw \<Longrightarrow>
     sw_peer sw = peer_id_of net (public net key) \<and> sw_idle_timeout sw = from_secs 60 \<and>
     bb_identify (sw_behaviour sw) = prepare_identify_behaviour (public net key) \<and>
     bb_kademlia (sw_behaviour sw) = prepare_kademlia_behaviour net (public net key)"
  by (auto simp: setup_swarm_for_bootnode_def swarm_new_def Let_def split: if_splits)

definition boot_key :: "net \<Rightarrow> keypair \<Rightarrow> string option \<Rightarrow> files \<Rightarrow> ((start_error + keypair) \<times> files) option" where
  "boot_key net new_key given fs =
     (case given of
        Some path \<Rightarrow>
          (case fs path of
             None \<Rightarrow> None
           | Some bytes \<Rightarrow> Some (ok_or KeyUndecodable (decode_key net bytes), fs))
      | None \<Rightarrow> map_option (map_prod Inr (\<lambda>fs'. fs')) (generate_key net new_key fs))"

definition boot_start :: "net \<Rightarrow> keypair \<Rightarrow> string option \<Rightarrow> files
    \<Rightarrow> ((start_error + boot_behaviour swarm \<times> kad_mode) \<times> files) option" where
  "boot_start net new_key given fs =
     (case boot_key net new_key given fs of
        None \<Rightarrow> None
      | Some (r, fs') \<Rightarrow>
          Some (try_then r (\<lambda>key.
            try_then (setup_swarm_for_bootnode net key) (\<lambda>sw.
            try_then (listen_on net ''/ip4/0.0.0.0/tcp/20201'' sw) (\<lambda>sw1.
            try_then (listen_on net ''/ip4/0.0.0.0/udp/20201/quic-v1'' sw1) (\<lambda>sw2.
              Inr (sw2, Server))))), fs'))"

section \<open>The loop\<close>

text \<open>One turn: a tick of the discovery timer with the random id it draws, or an event.\<close>

datatype boot_input = BootTick peer_id | BootEvent swarm_event

definition boot_event :: "swarm_event \<Rightarrow> swarm_action list" where
  "boot_event ev =
     (case ev of
        NewExternalAddrOfPeer peer address \<Rightarrow> if is_public address then [AddAddress peer address] else []
      | _ \<Rightarrow> [])"

definition boot_turn :: "boot_input \<Rightarrow> 'b swarm \<Rightarrow> 'b swarm" where
  "boot_turn inp sw =
     (case inp of
        BootTick random_peer_id \<Rightarrow> perform (GetClosestPeers random_peer_id) sw
      | BootEvent ev \<Rightarrow> fold perform (boot_event ev) sw)"

definition boot_loop :: "boot_input list \<Rightarrow> 'b swarm \<Rightarrow> 'b swarm" where
  "boot_loop inps sw = fold boot_turn inps sw"

section \<open>The loop against the client's\<close>

text \<open>The same input for the swarm task of a client.\<close>

definition as_swarm_input :: "boot_input \<Rightarrow> swarm_input" where
  "as_swarm_input inp = (case inp of BootTick p \<Rightarrow> DiscoveryTick p | BootEvent ev \<Rightarrow> Event ev)"

lemma boot_event_swarm: "boot_event ev = fst (on_swarm_event gossip_ok ev ch)"
  by (simp add: boot_event_def on_swarm_event_def split: swarm_event.splits option.splits)

lemma boot_turn_swarm:
  "\<exists>acts ch'. process_swarm_turn gossip_ok (as_swarm_input inp) ch = Some (acts, ch') \<and>
     boot_turn inp sw = fold perform acts sw"
proof (cases inp)
  case (BootEvent ev)
  then show ?thesis using boot_event_swarm[of ev gossip_ok ch]
    by (cases "on_swarm_event gossip_ok ev ch")
      (simp add: boot_turn_def as_swarm_input_def process_swarm_turn_def)
qed (simp add: boot_turn_def as_swarm_input_def process_swarm_turn_def)

lemma boot_loop_swarm:
  "boot_loop inps sw = fold perform (fst (process_swarm gossip_ok (List.map as_swarm_input inps) ch)) sw"
proof (induction inps arbitrary: sw ch)
  case (Cons inp inps)
  from boot_turn_swarm[of gossip_ok inp ch sw] obtain acts ch' where
    turn: "process_swarm_turn gossip_ok (as_swarm_input inp) ch = Some (acts, ch')"
      "boot_turn inp sw = fold perform acts sw" by blast
  from Cons.IH[of "boot_turn inp sw" ch'] show ?case
    using turn by (simp add: boot_loop_def split: prod.splits)
qed (simp add: boot_loop_def)

section \<open>Properties\<close>

text \<open>C12: A boot node keeps the same routing table as a client. On every sequence of ticks and events its
  loop makes the same queries and adds the same addresses as the swarm task of a client does,
  whatever that task sends to its consumer.\<close>

theorem boot_loop_equals_swarm_task:
  "boot_loop inps sw = fold perform (fst (process_swarm gossip_ok (List.map as_swarm_input inps) ch)) sw"
  by (rule boot_loop_swarm)

text \<open>C34: A client and its boot node fit together. If both start, the address the client dials is the
  TCP address of the configured host with the port on which the boot node listens, and they use the
  same identify and Kademlia protocols and the same idle time-out, each under its own id.\<close>

theorem client_meets_bootnode:
  assumes "go_public net k cfg fs = Some (Inr sw, fs')"
    and "boot_start net b given bfs = Some (Inr (bsw, mode), bfs')"
  shows "\<exists>peer addr l. sw_routes sw = [(peer, addr)] \<and>
    parse_multiaddr net (''/ip4/'' @ bootnode_ip_addr cfg @ ''/tcp/20201'') = Some addr \<and>
    parse_multiaddr net (''/ip4/'' @ ''0.0.0.0'' @ ''/tcp/20201'') = Some l \<and> l \<in> set (sw_listening bsw) \<and>
    id_protocol (gb_identify (sw_behaviour sw)) = id_protocol (bb_identify (sw_behaviour bsw)) \<and>
    kad_protocol (gb_kademlia (sw_behaviour sw)) = kad_protocol (bb_kademlia (sw_behaviour bsw)) \<and>
    kad_local_peer (gb_kademlia (sw_behaviour sw)) = sw_peer sw \<and>
    kad_local_peer (bb_kademlia (sw_behaviour bsw)) = sw_peer bsw \<and>
    sw_idle_timeout sw = sw_idle_timeout bsw"
proof -
  from assms(2) obtain bkey sw0 where boot: "setup_swarm_for_bootnode net bkey = Inr sw0"
    "sw_behaviour bsw = sw_behaviour sw0" "sw_peer bsw = sw_peer sw0" "sw_idle_timeout bsw = sw_idle_timeout sw0"
    by (auto simp: boot_start_def try_then_Inr listen_on_Inr split: option.splits)
  from assms(2) obtain l where l: "parse_multiaddr net ''/ip4/0.0.0.0/tcp/20201'' = Some l" "l \<in> set (sw_listening bsw)"
    by (auto simp: boot_start_def try_then_Inr listen_on_Inr split: option.splits)
  note bfacts = setup_swarm_for_bootnode_Inr[OF boot(1)]
  from assms(1) show ?thesis
  proof (cases rule: go_public_Inr)
    case start: (1 ckey csw)
    note cfacts = setup_global_swarm_Inr[OF start(2)]
    from start(3) show ?thesis
    proof (cases rule: join_network_Inr)
      case (1 l1 l2 peer addr e1 e2)
      then show ?thesis
        using l boot(2-4) bfacts cfacts 1(6)[unfolded bootnode_addr_def]
        by (intro exI[of _ peer] exI[of _ addr] exI[of _ l])
          (simp add: prepare_identify_behaviour_def prepare_kademlia_behaviour_def)
    qed
  qed
qed

theorem client_meets_bootnode_witness:
  "\<exists>sw fs bsw mode bfs. go_public sample_net [7] (sample_config None) Map.empty = Some (Inr sw, fs) \<and>
     boot_start sample_net [3] None Map.empty = Some (Inr (bsw, mode), bfs) \<and>
     kad_protocol (gb_kademlia (sw_behaviour sw)) = kad_protocol (bb_kademlia (sw_behaviour bsw))"
proof -
  obtain sw fs where c: "go_public sample_net [7] (sample_config None) Map.empty = Some (Inr sw, fs)"
    using sample_start(1)[of "[7]"] by blast
  obtain bsw mode bfs where b: "boot_start sample_net [3] None Map.empty = Some (Inr (bsw, mode), bfs)"
    by (simp add: boot_start_def boot_key_def generate_key_def setup_swarm_for_bootnode_def listen_on_def Let_def)
  from client_meets_bootnode[OF c b] c b show ?thesis by blast
qed

end
