(* ===== verification/Supervision.thy ===== *)
theory Supervision
  imports Runtime
begin

text \<open>
  The life of the client's tasks: \<open>run\<close> of \<open>bin/client/src/lib.rs\<close>, the tasks inside
  \<open>bridge::run\<close>, the signal task of \<open>crates/common/src/shutdown.rs\<close> and the shared
  cancellation token. A task's work is not modelled here, only when it ends.

  The ends of the channels tie the tasks together: the swarm task holds the sender of the
  handler channel, the coordinator those of the swarm and the bridge channel, the HTTP server and the
  message task of the bridge each a sender of the admission channel. A receiver whose senders are
  all gone gets \<open>None\<close>, on which its loop ends.
\<close>

section \<open>State\<close>

datatype task_state = Running | Exited | Panicked

datatype main_error = StartFailed | SwarmPanicked | CoordinatorPanicked | BridgePanicked

record procs =
  token :: bool
  signal_task :: task_state
  swarm_task :: task_state
  coord_task :: task_state
  server_task :: task_state
  msg_task :: task_state
  bridge_task :: task_state
  run_result :: "(main_error + unit) option"

definition procs_new :: procs where
  "procs_new = \<lparr>token = False, signal_task = Running, swarm_task = Running, coord_task = Running,
     server_task = Running, msg_task = Running, bridge_task = Running, run_result = None\<rparr>"

text \<open>
  \<open>try_join!\<close>: the protocols of the coordinator must be free to accept and the address of the
  bridge to bind, otherwise \<open>run\<close> returns the error at once.
\<close>

definition run_start :: "bool \<Rightarrow> bool \<Rightarrow> main_error + procs" where
  "run_start accepts binds = (if accepts \<and> binds then Inr procs_new else Inl StartFailed)"

section \<open>Signals\<close>

datatype signal_kind = Terminate | Interrupt | Hangup

text \<open>
  The branches are tried in order. \<open>ctrl_c\<close> is ready on an interrupt, as is \<open>sigint\<close> after it.
\<close>

definition shutdown_signal :: "(signal_kind \<Rightarrow> bool) \<Rightarrow> string option" where
  "shutdown_signal pending =
     (if pending Interrupt then Some ''CTRL+C''
      else if pending Terminate then Some ''SIGTERM''
      else if pending Interrupt then Some ''SIGINT''
      else if pending Hangup then Some ''SIGHUP''
      else None)"

text \<open>\<open>None\<close>: the task goes on waiting.\<close>

definition wait_for_shutdown_signal :: "(signal_kind \<Rightarrow> bool) \<Rightarrow> procs \<Rightarrow> procs option" where
  "wait_for_shutdown_signal pending s =
     (if signal_task s \<noteq> Running then None
      else if shutdown_signal pending \<noteq> None then Some (s\<lparr>token := True, signal_task := Exited\<rparr>)
      else if token s then Some (s\<lparr>signal_task := Exited\<rparr>)
      else None)"

section \<open>When a task ends by itself\<close>

definition swarm_exit :: "procs \<Rightarrow> procs option" where
  "swarm_exit s =
     (if swarm_task s = Running \<and> (token s \<or> coord_task s \<noteq> Running)
      then Some (s\<lparr>swarm_task := Exited\<rparr>) else None)"

definition coord_exit :: "procs \<Rightarrow> procs option" where
  "coord_exit s =
     (if coord_task s = Running \<and>
        (token s \<or> swarm_task s \<noteq> Running \<or> (server_task s \<noteq> Running \<and> msg_task s \<noteq> Running))
      then Some (s\<lparr>coord_task := Exited\<rparr>) else None)"

text \<open>Serving ends when the requests in progress have ended; each waits at most for its idle time-out.\<close>

definition server_exit :: "procs \<Rightarrow> procs option" where
  "server_exit s =
     (if server_task s = Running \<and> token s then Some (s\<lparr>server_task := Exited\<rparr>) else None)"

definition msg_exit :: "procs \<Rightarrow> procs option" where
  "msg_exit s =
     (if msg_task s = Running \<and> (token s \<or> coord_task s \<noteq> Running)
      then Some (s\<lparr>msg_task := Exited\<rparr>) else None)"

text \<open>The task that \<open>bridge::run\<close> returns: a panic of the server or message task is only logged.\<close>

definition bridge_exit :: "procs \<Rightarrow> procs option" where
  "bridge_exit s =
     (if bridge_task s = Running \<and> (server_task s \<noteq> Running \<or> msg_task s \<noteq> Running)
      then Some (s\<lparr>token := True, bridge_task := Exited\<rparr>) else None)"

section \<open>The supervisor\<close>

datatype handle = SwarmHandle | CoordHandle | BridgeHandle

definition handle_state :: "handle \<Rightarrow> procs \<Rightarrow> task_state" where
  "handle_state h s = (case h of SwarmHandle \<Rightarrow> swarm_task s | CoordHandle \<Rightarrow> coord_task s | BridgeHandle \<Rightarrow> bridge_task s)"

definition panic_error :: "handle \<Rightarrow> main_error" where
  "panic_error h = (case h of SwarmHandle \<Rightarrow> SwarmPanicked | CoordHandle \<Rightarrow> CoordinatorPanicked | BridgeHandle \<Rightarrow> BridgePanicked)"

text \<open>The arm of the \<open>select!\<close> of \<open>run\<close> for one of the three handles.\<close>

definition run_select :: "handle \<Rightarrow> procs \<Rightarrow> procs option" where
  "run_select h s =
     (if run_result s = None \<and> handle_state h s \<noteq> Running
      then Some (s\<lparr>token := True,
        run_result := Some (if handle_state h s = Exited then Inr () else Inl (panic_error h))\<rparr>)
      else None)"

section \<open>Steps\<close>

text \<open>What the code does by itself, and what happens to it.\<close>

inductive react :: "procs \<Rightarrow> procs \<Rightarrow> bool" where
  cancelled: "wait_for_shutdown_signal (\<lambda>_. False) s = Some t \<Longrightarrow> react s t"
| swarm: "swarm_exit s = Some t \<Longrightarrow> react s t"
| coord: "coord_exit s = Some t \<Longrightarrow> react s t"
| server: "server_exit s = Some t \<Longrightarrow> react s t"
| msg: "msg_exit s = Some t \<Longrightarrow> react s t"
| bridge: "bridge_exit s = Some t \<Longrightarrow> react s t"
| select: "run_select h s = Some t \<Longrightarrow> react s t"

inductive happen :: "procs \<Rightarrow> procs \<Rightarrow> bool" where
  signal: "shutdown_signal pending \<noteq> None \<Longrightarrow> wait_for_shutdown_signal pending s = Some t \<Longrightarrow> happen s t"
| swarm_panic: "swarm_task s = Running \<Longrightarrow> happen s (s\<lparr>swarm_task := Panicked\<rparr>)"
| coord_panic: "coord_task s = Running \<Longrightarrow> happen s (s\<lparr>coord_task := Panicked\<rparr>)"
| server_panic: "server_task s = Running \<Longrightarrow> happen s (s\<lparr>server_task := Panicked\<rparr>)"
| serve_error: "server_task s = Running \<Longrightarrow> happen s (s\<lparr>server_task := Exited\<rparr>)"
| msg_panic: "msg_task s = Running \<Longrightarrow> happen s (s\<lparr>msg_task := Panicked\<rparr>)"

definition live_step :: "procs \<Rightarrow> procs \<Rightarrow> bool" where
  "live_step s t \<longleftrightarrow> react s t \<or> happen s t"

inductive_cases reactE: "react s t"
inductive_cases happenE: "happen s t"

lemmas exit_defs = wait_for_shutdown_signal_def swarm_exit_def coord_exit_def server_exit_def
  msg_exit_def bridge_exit_def run_select_def

section \<open>Invariant and measure\<close>

definition sup_inv :: "procs \<Rightarrow> bool" where
  "sup_inv s \<longleftrightarrow>
     (signal_task s \<noteq> Running \<longrightarrow> token s) \<and> (bridge_task s \<noteq> Running \<longrightarrow> token s \<and> bridge_task s = Exited) \<and>
     (\<forall>r. run_result s = Some r \<longrightarrow> token s \<and>
        (\<exists>h. handle_state h s \<noteq> Running \<and> r = (if handle_state h s = Exited then Inr () else Inl (panic_error h))))"

text \<open>A handle that is not running does not change any more.\<close>

lemma live_step_keeps:
  assumes "live_step s t"
  shows "token s \<longrightarrow> token t" "handle_state h s \<noteq> Running \<longrightarrow> handle_state h t = handle_state h s"
    "run_result s \<noteq> None \<longrightarrow> run_result t = run_result s"
  using assms unfolding live_step_def
  by (auto elim!: reactE happenE simp: exit_defs handle_state_def split: handle.splits if_splits)

lemma sup_inv_new: "sup_inv procs_new"
  by (simp add: sup_inv_def procs_new_def)

lemma sup_inv_step:
  assumes "sup_inv s" and "live_step s t"
  shows "sup_inv t"
proof -
  have "(signal_task t \<noteq> Running \<longrightarrow> token t) \<and> (bridge_task t \<noteq> Running \<longrightarrow> token t \<and> bridge_task t = Exited)"
    using assms unfolding live_step_def sup_inv_def
    by (auto elim!: reactE happenE simp: exit_defs split: if_splits)
  moreover have "token t \<and> (\<exists>h. handle_state h t \<noteq> Running \<and>
      r = (if handle_state h t = Exited then Inr () else Inl (panic_error h)))"
    if r: "run_result t = Some r" for r
  proof (cases "run_result s")
    case (Some r')
    then have "r' = r" using live_step_keeps(3)[OF assms(2)] r by simp
    with Some assms(1) obtain h where h: "token s" "handle_state h s \<noteq> Running"
      "r = (if handle_state h s = Exited then Inr () else Inl (panic_error h))"
      by (auto simp: sup_inv_def)
    then show ?thesis using live_step_keeps(1,2)[OF assms(2)] by metis
  next
    case None
    then obtain h where "run_select h s = Some t"
      using assms(2) r unfolding live_step_def
      by (auto elim!: reactE happenE simp: exit_defs split: if_splits)
    then show ?thesis using r
      by (intro conjI exI[of _ h]) (auto simp: run_select_def handle_state_def split: if_splits handle.splits)
  qed
  ultimately show ?thesis by (simp add: sup_inv_def)
qed

interpretation supervised: invariant procs_new live_step sup_inv
  by unfold_locales (auto intro: sup_inv_new sup_inv_step)

text \<open>What is still to end.\<close>

definition weight :: "task_state \<Rightarrow> nat" where
  "weight x = (if x = Running then 1 else 0)"

definition to_end :: "procs \<Rightarrow> nat" where
  "to_end s = weight (signal_task s) + weight (swarm_task s) + weight (coord_task s) +
     weight (server_task s) + weight (msg_task s) + weight (bridge_task s) +
     (if run_result s = None then 1 else 0)"

lemma weight_simps [simp]: "weight Running = 1" "weight Exited = 0" "weight Panicked = 0"
  by (simp_all add: weight_def)

lemma to_end_react: "react s t \<Longrightarrow> Suc (to_end t) = to_end s"
  by (erule reactE) (auto simp: exit_defs to_end_def split: if_splits)

lemma to_end_happen: "happen s t \<Longrightarrow> Suc (to_end t) = to_end s"
  by (erule happenE) (auto simp: exit_defs to_end_def split: if_splits)

lemma to_end_step: "live_step s t \<Longrightarrow> Suc (to_end t) = to_end s"
  using to_end_react to_end_happen by (auto simp: live_step_def)

lemma to_end_run: "(live_step ^^ k) s t \<Longrightarrow> k + to_end t = to_end s"
proof (induction k arbitrary: t)
  case (Suc k)
  then obtain u where "(live_step ^^ k) s u" "live_step u t" by auto
  then show ?case using Suc.IH[of u] to_end_step[of u t] by simp
qed simp

lemma to_end_le: "to_end s \<le> 7"
proof -
  have w: "weight x \<le> 1" for x by (cases x) simp_all
  show ?thesis
    using w[of "signal_task s"] w[of "swarm_task s"] w[of "coord_task s"] w[of "server_task s"]
      w[of "msg_task s"] w[of "bridge_task s"]
    by (simp add: to_end_def)
qed

section \<open>Shutting down\<close>

text \<open>Something has happened: a task ended or the token is cancelled.\<close>

definition triggered :: "procs \<Rightarrow> bool" where
  "triggered s \<longleftrightarrow> token s \<or> signal_task s \<noteq> Running \<or> swarm_task s \<noteq> Running \<or> coord_task s \<noteq> Running \<or>
     server_task s \<noteq> Running \<or> msg_task s \<noteq> Running \<or> bridge_task s \<noteq> Running"

definition stopped :: "procs \<Rightarrow> bool" where
  "stopped s \<longleftrightarrow> token s \<and> to_end s = 0"

lemma react_exits:
  assumes "\<nexists>t. react s t"
  shows "wait_for_shutdown_signal (\<lambda>_. False) s = None" "swarm_exit s = None" "coord_exit s = None"
    "server_exit s = None" "msg_exit s = None" "bridge_exit s = None" "run_select h s = None"
  using assms react.intros by (metis not_Some_eq)+

text \<open>When nothing more happens by itself after a trigger, everything has ended.\<close>

lemma quiet_stopped:
  assumes "sup_inv s" and "triggered s" and "\<nexists>t. react s t"
  shows "stopped s"
proof -
  note no = react_exits[OF assms(3)]
  have sel: "run_result s \<noteq> None \<or> handle_state h s = Running" for h
    using no(7)[of h] by (auto simp: run_select_def split: if_splits)
  have "token s"
  proof (rule ccontr)
    assume "\<not> token s"
    then have "signal_task s = Running" "bridge_task s = Running" "run_result s = None"
      using assms(1) by (auto simp: sup_inv_def)
    moreover from this have "swarm_task s = Running" "coord_task s = Running"
      using sel[of SwarmHandle] sel[of CoordHandle] by (simp_all add: handle_state_def)
    moreover from calculation have "server_task s = Running" "msg_task s = Running"
      using no(6) by (auto simp: bridge_exit_def split: if_splits)
    ultimately show False using assms(2) \<open>\<not> token s\<close> by (simp add: triggered_def)
  qed
  then have "signal_task s \<noteq> Running" "swarm_task s \<noteq> Running" "coord_task s \<noteq> Running"
    "server_task s \<noteq> Running" "msg_task s \<noteq> Running"
    using no(1-5) by (auto simp: exit_defs shutdown_signal_def split: if_splits)
  moreover from this have "bridge_task s \<noteq> Running" using no(6) by (auto simp: bridge_exit_def split: if_splits)
  moreover have "run_result s \<noteq> None" using sel[of SwarmHandle] \<open>swarm_task s \<noteq> Running\<close> by (simp add: handle_state_def)
  ultimately show ?thesis using \<open>token s\<close> by (simp add: stopped_def to_end_def weight_def)
qed

lemma react_triggered: "react s t \<Longrightarrow> triggered t"
  by (auto elim!: reactE simp: exit_defs triggered_def split: if_splits)

lemma react_ends: "\<exists>t. react\<^sup>*\<^sup>* s t \<and> (\<nexists>u. react t u)"
proof (induction "to_end s" arbitrary: s rule: less_induct)
  case less
  show ?case
  proof (cases "\<exists>u. react s u")
    case True
    then obtain u where u: "react s u" by blast
    then have "Suc (to_end u) = to_end s" using to_end_step by (simp add: live_step_def)
    then obtain t where "react\<^sup>*\<^sup>* u t" "\<nexists>v. react t v" using less[of u] by auto
    then show ?thesis using u by (meson converse_rtranclp_into_rtranclp)
  qed blast
qed

section \<open>Properties\<close>

text \<open>The state after the HTTP server panicked, and the one it leads to.\<close>

definition after_panic :: procs where
  "after_panic = procs_new\<lparr>server_task := Panicked\<rparr>"

lemma after_panic_reachable: "reachable procs_new live_step after_panic"
proof (rule reachable.more[OF reachable.start])
  show "live_step procs_new after_panic"
    unfolding live_step_def after_panic_def
    by (intro disjI2 happen.server_panic) (simp add: procs_new_def)
qed

lemma after_panic_triggered: "triggered after_panic"
  by (simp add: triggered_def after_panic_def)

text \<open>C7: One end brings everything to its end. Once any task has ended, for whatever reason, or a signal
  has come, the client stops by itself: whatever else happens at most seven steps are left, and
  when the tasks have nothing more to do, the token is cancelled, all of them have ended and \<open>run\<close>
  has returned.\<close>

theorem shutdown_completes:
  assumes "reachable procs_new live_step s" and "triggered s"
  shows "(\<exists>t. react\<^sup>*\<^sup>* s t \<and> (\<nexists>u. react t u)) \<and>
    (\<forall>t. react\<^sup>*\<^sup>* s t \<and> (\<nexists>u. react t u) \<longrightarrow> token t \<and> run_result t \<noteq> None \<and>
       Running \<notin> {signal_task t, swarm_task t, coord_task t, server_task t, msg_task t, bridge_task t}) \<and>
    (\<forall>k t. (live_step ^^ k) s t \<longrightarrow> k \<le> 7)"
proof -
  have inv: "sup_inv s" using assms(1) by (rule supervised.inv_reachable)
  have "token t \<and> run_result t \<noteq> None \<and>
      Running \<notin> {signal_task t, swarm_task t, coord_task t, server_task t, msg_task t, bridge_task t}"
    if run: "react\<^sup>*\<^sup>* s t" "\<nexists>u. react t u" for t
  proof -
    have "live_step\<^sup>*\<^sup>* s t" using run(1) by (rule mono_rtranclp[rule_format, rotated]) (simp add: live_step_def)
    then have "sup_inv t" using inv by (rule supervised.inv_run)
    moreover have "triggered t" using run(1) assms(2) react_triggered by (auto elim: rtranclp.cases)
    ultimately have "stopped t" using run(2) by (rule quiet_stopped)
    then show ?thesis by (auto simp: stopped_def to_end_def weight_def split: if_splits)
  qed
  moreover have "k \<le> 7" if "(live_step ^^ k) s t" for k t
  proof -
    have "to_end s \<le> 7" by (rule to_end_le)
    then show ?thesis using to_end_run[OF that] by simp
  qed
  ultimately show ?thesis using react_ends[of s] by blast
qed

theorem shutdown_completes_witness:
  "\<exists>t. react\<^sup>*\<^sup>* after_panic t \<and> token t \<and> run_result t \<noteq> None \<and> swarm_task t \<noteq> Running"
proof -
  note all = shutdown_completes[OF after_panic_reachable after_panic_triggered]
  obtain t where t: "react\<^sup>*\<^sup>* after_panic t \<and> (\<nexists>u. react t u)" using all by blast
  have "token t \<and> run_result t \<noteq> None \<and>
      Running \<notin> {signal_task t, swarm_task t, coord_task t, server_task t, msg_task t, bridge_task t}"
    using all t by blast
  with t show ?thesis by (intro exI[of _ t]) (simp add: eq_commute[of Running])
qed

text \<open>C18: An error of \<open>run\<close> names a task that panicked, and only the swarm task or the coordinator can be
  it: a panic of the HTTP server or of the bridge's message task ends the client with success.\<close>

theorem run_error_names_panic:
  assumes "reachable procs_new live_step s" and "run_result s = Some r"
  shows "token s \<and> (r = Inr () \<or> (r = Inl SwarmPanicked \<and> swarm_task s = Panicked) \<or>
    (r = Inl CoordinatorPanicked \<and> coord_task s = Panicked))"
proof -
  have inv: "sup_inv s" using assms(1) by (rule supervised.inv_reachable)
  then obtain h where h: "token s" "handle_state h s \<noteq> Running"
    "r = (if handle_state h s = Exited then Inr () else Inl (panic_error h))"
    using assms(2) by (auto simp: sup_inv_def)
  have state: "x = Panicked" if "x \<noteq> Running" "x \<noteq> Exited" for x using that by (cases x) auto
  show ?thesis using h inv state
    by (cases h) (auto simp: handle_state_def panic_error_def sup_inv_def split: if_splits)
qed

theorem run_error_names_panic_witness:
  "\<exists>s. reachable procs_new live_step s \<and> server_task s = Panicked \<and> run_result s = Some (Inr ())"
proof -
  let ?s1 = "after_panic\<lparr>token := True, bridge_task := Exited\<rparr>"
  let ?s2 = "?s1\<lparr>token := True, run_result := Some (Inr ())\<rparr>"
  have "react after_panic ?s1"
    by (rule react.bridge) (simp add: bridge_exit_def after_panic_def procs_new_def)
  moreover have "react ?s1 ?s2"
    by (rule react.select[of BridgeHandle]) (simp add: run_select_def handle_state_def after_panic_def procs_new_def)
  ultimately have r: "reachable procs_new live_step ?s2"
    using after_panic_reachable by (meson live_step_def reachable.more)
  have "token ?s2" using run_error_names_panic[OF r, of "Inr ()"] by simp
  with r show ?thesis by (intro exI[of _ ?s2]) (simp add: after_panic_def)
qed

end
